(* ===== verification/Prelude.thy ===== *)
theory Prelude
  imports Main "HOL-Library.Word" "HOL-Library.Signed_Division" "HOL-Library.Multiset"
begin

text \<open>
  Shared vocabulary of the development: Go's fixed-width integers, saturating clock
  subtraction, first-error composition of validators, and the generic list lemmas that the
  components use.

  Go's \<open>int\<close> and \<open>int64\<close> are modelled as \<open>int\<close> together with the
  explicit wrap-around \<open>wrap64\<close>; the atomically updated \<open>int32\<close> counters use
  \<open>wrap32\<close>.  Both go through the library's words, so that
  \<open>sint (word_of_int x)\<close> is the two's complement reading of the low bits.
\<close>

named_theorems go_arith "facts that remove machine-integer wrap-around inside the range"

type_synonym goint = int      \<comment> \<open>a value of Go's \<open>int\<close> (64 bit)\<close>
type_synonym duration = int   \<comment> \<open>\<open>time.Duration\<close>: an \<open>int64\<close> of nanoseconds\<close>
type_synonym instant = int    \<comment> \<open>a monotonic clock reading in nanoseconds\<close>

section \<open>Machine integers\<close>

definition wrap64 :: "int \<Rightarrow> int" where
  "wrap64 x = sint (word_of_int x :: 64 word)"

definition wrap32 :: "int \<Rightarrow> int" where
  "wrap32 x = sint (word_of_int x :: 32 word)"

abbreviation min_int64 :: int where "min_int64 \<equiv> - 9223372036854775808"
abbreviation max_int64 :: int where "max_int64 \<equiv> 9223372036854775807"

definition in64 :: "int \<Rightarrow> bool" where
  "in64 x \<longleftrightarrow> min_int64 \<le> x \<and> x \<le> max_int64"

definition in32 :: "int \<Rightarrow> bool" where
  "in32 x \<longleftrightarrow> - 2147483648 \<le> x \<and> x \<le> 2147483647"

lemma wrap64_take_bit: "wrap64 x = signed_take_bit 63 x"
  by (simp add: wrap64_def sint_sbintrunc')

lemma wrap32_take_bit: "wrap32 x = signed_take_bit 31 x"
  by (simp add: wrap32_def sint_sbintrunc')

lemma wrap64_id [go_arith]: "min_int64 \<le> x \<Longrightarrow> x \<le> max_int64 \<Longrightarrow> wrap64 x = x"
  by (simp add: wrap64_take_bit signed_take_bit_int_eq_self)

lemma wrap64_in64 [go_arith]: "in64 x \<Longrightarrow> wrap64 x = x"
  by (simp add: in64_def wrap64_id)

lemma wrap32_id [go_arith]: "- 2147483648 \<le> x \<Longrightarrow> x \<le> 2147483647 \<Longrightarrow> wrap32 x = x"
  by (simp add: wrap32_take_bit signed_take_bit_int_eq_self)

lemma in64_wrap64 [simp]: "in64 (wrap64 x)"
  using signed_take_bit_int_less_exp [of 63 x] signed_take_bit_int_greater_eq_minus_exp [of 63 x]
  by (simp add: in64_def wrap64_take_bit)

lemma in32_wrap32 [simp]: "in32 (wrap32 x)"
  using signed_take_bit_int_less_exp [of 31 x] signed_take_bit_int_greater_eq_minus_exp [of 31 x]
  by (simp add: in32_def wrap32_take_bit)

lemma wrap64_eq_iff: "wrap64 x = wrap64 y \<longleftrightarrow> x mod 18446744073709551616 = y mod 18446744073709551616"
  by (simp add: wrap64_take_bit signed_take_bit_eq_iff_take_bit_eq take_bit_eq_mod)

lemma wrap64_add_right: "wrap64 (x + wrap64 y) = wrap64 (x + y)"
proof -
  have "wrap64 (wrap64 y) = wrap64 y" by (rule wrap64_in64) simp
  then have "wrap64 y mod 18446744073709551616 = y mod 18446744073709551616"
    unfolding wrap64_eq_iff .
  then show ?thesis unfolding wrap64_eq_iff by (intro mod_add_cong refl)
qed

lemma wrap64_over: "max_int64 < x \<Longrightarrow> x \<le> max_int64 + 18446744073709551616 \<Longrightarrow>
    wrap64 x = x - 18446744073709551616"
  using wrap64_eq_iff [of x "x - 18446744073709551616"] wrap64_id [of "x - 18446744073709551616"]
  by simp

lemma wrap64_under: "x < min_int64 \<Longrightarrow> min_int64 - 18446744073709551616 \<le> x \<Longrightarrow>
    wrap64 x = x + 18446744073709551616"
  using wrap64_eq_iff [of x "x + 18446744073709551616"] wrap64_id [of "x + 18446744073709551616"]
  by simp

lemma wrap32_eq_iff: "wrap32 x = wrap32 y \<longleftrightarrow> x mod 4294967296 = y mod 4294967296"
  by (simp add: wrap32_take_bit signed_take_bit_eq_iff_take_bit_eq take_bit_eq_mod)

lemma wrap32_add_left: "wrap32 (wrap32 x + y) = wrap32 (x + y)"
proof -
  have "wrap32 x mod 4294967296 = x mod 4294967296"
    using wrap32_eq_iff [of "wrap32 x" x] wrap32_id [of "wrap32 x"] in32_wrap32 [of x]
    by (simp add: in32_def)
  then show ?thesis
    unfolding wrap32_eq_iff by (metis mod_add_left_eq)
qed

text \<open>Integer division of Go truncates; \<open>sdiv\<close> of the library is that division.\<close>

lemma sdiv_two_nonneg: "0 \<le> (x::int) \<Longrightarrow> x sdiv 2 = x div 2"
  by (simp add: signed_divide_int_def sgn_if)

section \<open>The clock\<close>

text \<open>\<open>Time.Sub\<close> and \<open>time.Since\<close> saturate at the ends of \<open>Duration\<close>.\<close>

definition time_sub :: "instant \<Rightarrow> instant \<Rightarrow> duration" where
  "time_sub t u = max min_int64 (min max_int64 (t - u))"

lemma in64_time_sub [simp]: "in64 (time_sub t u)"
  by (simp add: in64_def time_sub_def)

lemma time_sub_nonneg: "u \<le> t \<Longrightarrow> 0 \<le> time_sub t u"
  by (simp add: time_sub_def)

lemma time_sub_exact [go_arith]: "in64 (t - u) \<Longrightarrow> time_sub t u = t - u"
  by (simp add: in64_def time_sub_def)

lemma time_sub_mono: "t \<le> t' \<Longrightarrow> time_sub t u \<le> time_sub t' u"
  by (simp add: time_sub_def)

abbreviation millisecond :: int where "millisecond \<equiv> 1000000"
abbreviation second :: int where "second \<equiv> 1000000000"

section \<open>Sequential checks\<close>

text \<open>A chain of \<open>if cond { return err }\<close> statements: the first error wins.\<close>

fun first_error :: "(bool \<times> 'e) list \<Rightarrow> 'e option" where
  "first_error [] = None"
| "first_error ((c, e) # cs) = (if c then Some e else first_error cs)"

definition or_error :: "'e option \<Rightarrow> 'e option \<Rightarrow> 'e option" where
  "or_error a b = (case a of Some e \<Rightarrow> Some e | None \<Rightarrow> b)"

lemma first_error_None_iff: "first_error cs = None \<longleftrightarrow> (\<forall>(c, e) \<in> set cs. \<not> c)"
  by (induction cs rule: first_error.induct) auto

lemma or_error_None_iff [simp]: "or_error a b = None \<longleftrightarrow> a = None \<and> b = None"
  by (simp add: or_error_def split: option.splits)

section \<open>Lists\<close>

lemma nth_swap:
  assumes "i < length xs" "j < length xs" "k < length xs"
  shows "xs[i := xs ! j, j := xs ! i] ! k
    = (if k = i then xs ! j else if k = j then xs ! i else xs ! k)"
  using assms by (auto simp: nth_list_update)

lemma length_tl_append [simp]: "xs \<noteq> [] \<Longrightarrow> length (tl xs @ [x]) = length xs"
  by (cases xs) auto

end
