(* ===== verification/Go_Heap.thy ===== *)
theory Go_Heap
  imports Prelude
begin

text \<open>
  The part of Go's \<open>container/heap\<close> that the priority queue calls: \<open>heap.Init\<close>,
  \<open>heap.Push\<close>, \<open>heap.Pop\<close> and the two loops \<open>up\<close> and \<open>down\<close>.  As in Go, the
  routines are written against the interface of the heap (\<open>Len\<close>, \<open>Less\<close>, \<open>Swap\<close>,
  \<open>Push\<close>, \<open>Pop\<close>), which they receive as arguments.

  The locale \<open>weak_order\<close> states what a comparison must satisfy (a strict weak order),
  \<open>heap_interface\<close> what a client's five methods must do to the list of keys it holds.
  Inside the second, the routines are first related to the same routines on plain lists and
  then shown to keep the heap order, to keep the multiset of keys, and to return a least key.
\<close>

section \<open>The routines\<close>

function heap_up ::
  "('h \<Rightarrow> nat \<Rightarrow> nat \<Rightarrow> bool) \<Rightarrow> ('h \<Rightarrow> nat \<Rightarrow> nat \<Rightarrow> 'h) \<Rightarrow> 'h \<Rightarrow> nat \<Rightarrow> 'h" where
  "heap_up lt swap h j =
     (let i = (j - 1) div 2
      in if i = j \<or> \<not> lt h j i then h else heap_up lt swap (swap h i j) i)"
  by pat_completeness auto
termination
  by (relation "measure (\<lambda>(lt, swap, h, j). j)") auto

function heap_down ::
  "('h \<Rightarrow> nat \<Rightarrow> nat \<Rightarrow> bool) \<Rightarrow> ('h \<Rightarrow> nat \<Rightarrow> nat \<Rightarrow> 'h) \<Rightarrow> 'h \<Rightarrow> nat \<Rightarrow> nat \<Rightarrow> 'h" where
  "heap_down lt swap h i n =
     (let j1 = 2 * i + 1; j2 = j1 + 1
      in if n \<le> j1 then h
         else let j = (if j2 < n \<and> lt h j2 j1 then j2 else j1)
              in if \<not> lt h j i then h else heap_down lt swap (swap h i j) j n)"
  by pat_completeness auto
termination
  by (relation "measure (\<lambda>(lt, swap, h, i, n). n - i)") (auto simp: Let_def split: if_splits)

declare heap_up.simps [simp del] heap_down.simps [simp del]

definition heap_init ::
  "('h \<Rightarrow> nat) \<Rightarrow> ('h \<Rightarrow> nat \<Rightarrow> nat \<Rightarrow> bool) \<Rightarrow> ('h \<Rightarrow> nat \<Rightarrow> nat \<Rightarrow> 'h) \<Rightarrow> 'h \<Rightarrow> 'h" where
  "heap_init len lt swap h =
     (let n = len h in foldl (\<lambda>h i. heap_down lt swap h i n) h (rev [0..<n div 2]))"

definition heap_push ::
  "('h \<Rightarrow> nat) \<Rightarrow> ('h \<Rightarrow> nat \<Rightarrow> nat \<Rightarrow> bool) \<Rightarrow> ('h \<Rightarrow> nat \<Rightarrow> nat \<Rightarrow> 'h) \<Rightarrow>
    ('h \<Rightarrow> 'x \<Rightarrow> 'h) \<Rightarrow> 'h \<Rightarrow> 'x \<Rightarrow> 'h" where
  "heap_push len lt swap push h x = (let h' = push h x in heap_up lt swap h' (len h' - 1))"

definition heap_pop ::
  "('h \<Rightarrow> nat) \<Rightarrow> ('h \<Rightarrow> nat \<Rightarrow> nat \<Rightarrow> bool) \<Rightarrow> ('h \<Rightarrow> nat \<Rightarrow> nat \<Rightarrow> 'h) \<Rightarrow>
    ('h \<Rightarrow> 'x \<times> 'h) \<Rightarrow> 'h \<Rightarrow> 'x \<times> 'h" where
  "heap_pop len lt swap pop h =
     (let n = len h - 1 in pop (heap_down lt swap (swap h 0 n) 0 n))"

section \<open>Lists as heaps\<close>

text \<open>The interface on a plain list of keys, compared by \<open>before\<close>.\<close>

definition list_less :: "('k \<Rightarrow> 'k \<Rightarrow> bool) \<Rightarrow> 'k list \<Rightarrow> nat \<Rightarrow> nat \<Rightarrow> bool" where
  "list_less before xs i j = before (xs ! i) (xs ! j)"

definition list_swap :: "'k list \<Rightarrow> nat \<Rightarrow> nat \<Rightarrow> 'k list" where
  "list_swap xs i j = xs[i := xs ! j, j := xs ! i]"

definition parent :: "nat \<Rightarrow> nat" where
  "parent k = (k - 1) div 2"

lemma heap_up_unfold:
  "heap_up lt swap h j =
     (if parent j = j \<or> \<not> lt h j (parent j) then h
      else heap_up lt swap (swap h (parent j) j) (parent j))"
  by (subst heap_up.simps) (simp add: Let_def parent_def)

text \<open>\<open>heap_on before m n xs\<close>: every edge of the tree on the first \<open>n\<close> cells
  whose upper end is at least \<open>m\<close> is in order.\<close>

definition heap_on :: "('k \<Rightarrow> 'k \<Rightarrow> bool) \<Rightarrow> nat \<Rightarrow> nat \<Rightarrow> 'k list \<Rightarrow> bool" where
  "heap_on before m n xs \<longleftrightarrow>
     (\<forall>k. 0 < k \<and> k < n \<and> m \<le> parent k \<longrightarrow> \<not> before (xs ! k) (xs ! parent k))"

abbreviation heap_ordered :: "('k \<Rightarrow> 'k \<Rightarrow> bool) \<Rightarrow> 'k list \<Rightarrow> bool" where
  "heap_ordered before xs \<equiv> heap_on before 0 (length xs) xs"

text \<open>One defect, at \<open>j\<close> towards its parent (for \<open>up\<close>) or at \<open>i\<close> towards its
  children (for \<open>down\<close>); the second conjunct lets the repair move the defect on.\<close>

definition heap_but_up :: "('k \<Rightarrow> 'k \<Rightarrow> bool) \<Rightarrow> nat \<Rightarrow> 'k list \<Rightarrow> bool" where
  "heap_but_up before j xs \<longleftrightarrow>
     (\<forall>k. 0 < k \<and> k < length xs \<and> k \<noteq> j \<longrightarrow> \<not> before (xs ! k) (xs ! parent k)) \<and>
     (\<forall>k. 0 < k \<and> k < length xs \<and> parent k = j \<and> 0 < j \<longrightarrow> \<not> before (xs ! k) (xs ! parent j))"

definition heap_but_down :: "('k \<Rightarrow> 'k \<Rightarrow> bool) \<Rightarrow> nat \<Rightarrow> nat \<Rightarrow> nat \<Rightarrow> 'k list \<Rightarrow> bool" where
  "heap_but_down before m i n xs \<longleftrightarrow>
     (\<forall>k. 0 < k \<and> k < n \<and> m \<le> parent k \<and> parent k \<noteq> i \<longrightarrow> \<not> before (xs ! k) (xs ! parent k)) \<and>
     (\<forall>k. 0 < k \<and> k < n \<and> parent k = i \<and> 0 < i \<and> m \<le> parent i \<longrightarrow> \<not> before (xs ! k) (xs ! parent i))"

lemma length_list_swap [simp]: "length (list_swap xs i j) = length xs"
  by (simp add: list_swap_def)

lemma mset_list_swap [simp]:
  "i < length xs \<Longrightarrow> j < length xs \<Longrightarrow> mset (list_swap xs i j) = mset xs"
  by (simp add: list_swap_def mset_swap)

lemma nth_list_swap:
  "i < length xs \<Longrightarrow> j < length xs \<Longrightarrow> k < length xs \<Longrightarrow>
    list_swap xs i j ! k = (if k = i then xs ! j else if k = j then xs ! i else xs ! k)"
  by (simp add: list_swap_def nth_swap)

lemma parent_less [simp]: "0 < k \<Longrightarrow> parent k < k"
  unfolding parent_def by arith

lemma parent_le [simp]: "parent k \<le> k"
  unfolding parent_def by arith

lemma parent_iff: "0 < k \<Longrightarrow> parent k = i \<longleftrightarrow> k = 2 * i + 1 \<or> k = 2 * i + 2"
  unfolding parent_def by arith

lemma heap_down_unfold:
  "heap_down lt swap h i n =
     (let j = (if 2 * i + 2 < n \<and> lt h (2 * i + 2) (2 * i + 1) then 2 * i + 2 else 2 * i + 1)
      in if n \<le> 2 * i + 1 \<or> \<not> lt h j i then h else heap_down lt swap (swap h i j) j n)"
  by (subst heap_down.simps) (simp add: Let_def)

lemma heap_up_list:
  "heap_up (list_less before) list_swap xs j =
     (if parent j = j \<or> \<not> before (xs ! j) (xs ! parent j) then xs
      else heap_up (list_less before) list_swap (list_swap xs (parent j) j) (parent j))"
  by (subst heap_up_unfold) (simp only: list_less_def)

lemma mset_heap_up:
  "j < length xs \<Longrightarrow> mset (heap_up (list_less before) list_swap xs j) = mset xs"
proof (induction "list_less before" "list_swap :: 'a list \<Rightarrow> _" xs j rule: heap_up.induct)
  case (1 h j)
  then show ?case by (subst heap_up.simps) (auto simp: Let_def)
qed

lemma length_heap_up [simp]:
  "j < length xs \<Longrightarrow> length (heap_up (list_less before) list_swap xs j) = length xs"
  by (metis mset_heap_up size_mset)

lemma heap_on_butlast:
  assumes "heap_on before 0 (length ys - 1) ys"
  shows "heap_ordered before (butlast ys)"
  unfolding heap_on_def
proof (intro allI impI)
  fix k assume k: "0 < k \<and> k < length (butlast ys) \<and> 0 \<le> parent k"
  then have "parent k < length (butlast ys)" using parent_less [of k] by linarith
  then show "\<not> before (butlast ys ! k) (butlast ys ! parent k)"
    using k assms by (simp add: heap_on_def nth_butlast)
qed

lemma mset_heap_down:
  "i < n \<Longrightarrow> n \<le> length xs \<Longrightarrow> mset (heap_down (list_less before) list_swap xs i n) = mset xs"
proof (induction "list_less before" "list_swap :: 'a list \<Rightarrow> _" xs i n rule: heap_down.induct)
  case (1 h i n)
  then show ?case by (subst heap_down.simps) (auto simp: Let_def)
qed

lemma length_heap_down [simp]:
  "length (heap_down (list_less before) list_swap xs i n) = length xs"
proof (induction "list_less before" "list_swap :: 'a list \<Rightarrow> _" xs i n rule: heap_down.induct)
  case (1 h i n)
  then show ?case by (subst heap_down.simps) (auto simp: Let_def)
qed

text \<open>Cells from \<open>n\<close> on are out of reach of \<open>down\<close>.\<close>

lemma heap_down_frame:
  "n \<le> k \<Longrightarrow> k < length xs \<Longrightarrow> heap_down (list_less before) list_swap xs i n ! k = xs ! k"
proof (induction "list_less before" "list_swap :: 'a list \<Rightarrow> _" xs i n rule: heap_down.induct)
  case (1 h i n)
  then show ?case by (subst heap_down.simps) (auto simp: Let_def nth_list_swap)
qed

section \<open>Strict weak orders\<close>

locale weak_order =
  fixes before :: "'k \<Rightarrow> 'k \<Rightarrow> bool"
  assumes asym: "before a b \<Longrightarrow> \<not> before b a"
    and negtrans: "\<not> before a b \<Longrightarrow> \<not> before b c \<Longrightarrow> \<not> before a c"
begin

lemma irrefl [simp]: "\<not> before a a"
  using asym by blast

lemma before_trans: "before a b \<Longrightarrow> before b c \<Longrightarrow> before a c"
  using asym negtrans by blast

lemma heap_but_up_step:
  assumes inv: "heap_but_up before j xs" and j: "j < length xs" "0 < j"
    and lt: "before (xs ! j) (xs ! parent j)"
  shows "heap_but_up before (parent j) (list_swap xs (parent j) j)"
proof -
  let ?i = "parent j" and ?ys = "list_swap xs (parent j) j"
  have ij: "?i < j" "?i < length xs" using j parent_less [of j] by linarith+
  have nth: "?ys ! k = (if k = ?i then xs ! j else if k = j then xs ! ?i else xs ! k)"
    if "k < length xs" for k using that ij j by (simp add: nth_list_swap)
  have edge: "\<not> before (xs ! k) (xs ! parent k)" if "0 < k" "k < length xs" "k \<noteq> j" for k
    using inv that by (simp add: heap_but_up_def)
  have grand: "\<not> before (xs ! k) (xs ! ?i)" if "0 < k" "k < length xs" "parent k = j" for k
    using inv that j by (simp add: heap_but_up_def)
  have sib: "\<not> before (xs ! k) (xs ! j)" if "0 < k" "k < length xs" "parent k = ?i" for k
    using edge [of k] that negtrans [OF _ asym [OF lt]] by (cases "k = j") auto
  have one: "\<not> before (?ys ! k) (?ys ! parent k)" if k: "0 < k" "k < length xs" "k \<noteq> ?i" for k
  proof -
    have pk: "parent k < k" "parent k < length xs" using k parent_less [of k] by linarith+
    consider "k = j" | "k \<noteq> j" "parent k = j" | "k \<noteq> j" "parent k = ?i"
      | "k \<noteq> j" "parent k \<noteq> j" "parent k \<noteq> ?i" by blast
    then show ?thesis
      by cases (use k pk ij nth [of k] nth [of "parent k"] asym [OF lt] grand sib edge in \<open>auto\<close>)
  qed
  have two: "\<not> before (?ys ! k) (?ys ! parent ?i)"
    if k: "0 < k" "k < length xs" "parent k = ?i" "0 < ?i" for k
  proof -
    have pi: "parent ?i < ?i" "parent ?i < length xs"
      using parent_less [OF k(4)] ij by linarith+
    have up: "\<not> before (xs ! ?i) (xs ! parent ?i)" using edge [of ?i] k ij by simp
    have "\<not> before (xs ! k) (xs ! parent ?i)" if "k \<noteq> j"
      using negtrans [OF _ up, of "xs ! k"] edge [of k] that k by simp
    then show ?thesis
      using k pi ij nth [of k] nth [of "parent ?i"] up by (cases "k = j") auto
  qed
  from one two show ?thesis by (simp add: heap_but_up_def)
qed

lemma heap_up_ordered:
  "heap_but_up before j xs \<Longrightarrow> j < length xs \<Longrightarrow>
    heap_ordered before (heap_up (list_less before) list_swap xs j)"
proof (induction "list_less before" "list_swap :: 'k list \<Rightarrow> _" xs j rule: heap_up.induct)
  case (1 h j)
  show ?case
  proof (cases "parent j = j \<or> \<not> before (h ! j) (h ! parent j)")
    case True
    then have "heap_up (list_less before) list_swap h j = h"
      by (subst heap_up_unfold) (auto simp: list_less_def)
    moreover have "heap_ordered before h"
      unfolding heap_on_def
    proof (intro allI impI)
      fix k assume "0 < k \<and> k < length h \<and> 0 \<le> parent k"
      then show "\<not> before (h ! k) (h ! parent k)"
        using True "1.prems"(1) by (cases "k = j") (auto simp: heap_but_up_def)
    qed
    ultimately show ?thesis by simp
  next
    case False
    then have "0 < j" by (cases j) (auto simp: parent_def)
    then have "heap_but_up before (parent j) (list_swap h (parent j) j)"
      using heap_but_up_step [OF "1.prems"] False by blast
    moreover have "heap_up (list_less before) list_swap h j
        = heap_up (list_less before) list_swap (list_swap h (parent j) j) (parent j)"
      using False by (subst heap_up_unfold) (auto simp: list_less_def)
    moreover have "parent j < length h"
      using "1.prems"(2) parent_le [of j] by linarith
    ultimately show ?thesis
      using "1.hyps" [OF refl] False by (auto simp: list_less_def parent_def)
  qed
qed

lemma heap_but_down_step:
  assumes inv: "heap_but_down before m i n xs" and n: "n \<le> length xs" and m: "m \<le> i"
    and j: "j < n" "j = 2 * i + 1 \<or> j = 2 * i + 2"
    and lt: "before (xs ! j) (xs ! i)"
    and least: "\<And>k. 0 < k \<Longrightarrow> k < n \<Longrightarrow> parent k = i \<Longrightarrow> \<not> before (xs ! k) (xs ! j)"
  shows "heap_but_down before m j n (list_swap xs i j)"
proof -
  let ?ys = "list_swap xs i j"
  have pj: "0 < j" "parent j = i" "i < j" "i < n" using j by (auto simp: parent_def)
  have nth: "?ys ! k = (if k = i then xs ! j else if k = j then xs ! i else xs ! k)"
    if "k < n" for k using that j pj n by (simp add: nth_list_swap)
  have edge: "\<not> before (xs ! k) (xs ! parent k)"
    if "0 < k" "k < n" "m \<le> parent k" "parent k \<noteq> i" for k
    using inv that by (simp add: heap_but_down_def)
  have grand: "\<not> before (xs ! j) (xs ! parent i)" if "0 < i" "m \<le> parent i"
    using inv that pj j by (simp add: heap_but_down_def)
  have one: "\<not> before (?ys ! k) (?ys ! parent k)"
    if k: "0 < k" "k < n" "m \<le> parent k" "parent k \<noteq> j" for k
  proof -
    have pk: "parent k < k" "parent k < n" using k parent_less [of k] by linarith+
    consider "parent k = i" "k = j" | "parent k = i" "k \<noteq> j" | "parent k \<noteq> i" "k = i"
      | "parent k \<noteq> i" "k \<noteq> i" by blast
    then show ?thesis
    proof cases
      case 1
      then show ?thesis using asym [OF lt] nth [of k] nth [of i] pj j by simp
    next
      case 2
      then show ?thesis using least [of k] nth [of k] nth [of i] pj pk k by simp
    next
      case 3
      then show ?thesis using grand nth [of i] nth [of "parent i"] pj pk k by simp
    next
      case 4
      then have "k \<noteq> j" using pj by auto
      with 4 show ?thesis using edge [of k] nth [of k] nth [of "parent k"] k pk by simp
    qed
  qed
  have two: "\<not> before (?ys ! k) (?ys ! parent j)" if k: "0 < k" "k < n" "parent k = j" for k
  proof -
    have "j < k" using k parent_less [of k] by simp
    then show ?thesis
      using k pj m nth [of k] nth [of i] edge [of k] by simp
  qed
  from one two show ?thesis by (simp add: heap_but_down_def)
qed

lemma heap_down_on:
  "heap_but_down before m i n xs \<Longrightarrow> n \<le> length xs \<Longrightarrow> m \<le> i \<Longrightarrow>
    heap_on before m n (heap_down (list_less before) list_swap xs i n)"
proof (induction "n - i" arbitrary: i xs rule: less_induct)
  case less
  define j where
    "j = (if 2 * i + 2 < n \<and> before (xs ! (2 * i + 2)) (xs ! (2 * i + 1)) then 2 * i + 2 else 2 * i + 1)"
  have unfold: "heap_down (list_less before) list_swap xs i n =
      (if n \<le> 2 * i + 1 \<or> \<not> before (xs ! j) (xs ! i) then xs
       else heap_down (list_less before) list_swap (list_swap xs i j) j n)"
    by (subst heap_down_unfold) (simp add: Let_def list_less_def j_def)
  have least: "\<not> before (xs ! k) (xs ! j)" if "0 < k" "k < n" "parent k = i" for k
    using parent_iff [of k i] that asym by (auto simp: j_def)
  show ?case
  proof (cases "n \<le> 2 * i + 1 \<or> \<not> before (xs ! j) (xs ! i)")
    case True
    have "\<not> before (xs ! k) (xs ! parent k)" if k: "0 < k" "k < n" "m \<le> parent k" for k
    proof (cases "parent k = i")
      case False
      then show ?thesis using less.prems(1) k by (simp add: heap_but_down_def)
    next
      case i: True
      then have "\<not> n \<le> 2 * i + 1" using parent_iff [of k i] k by auto
      with True show ?thesis using negtrans [OF least] k i by blast
    qed
    with True unfold show ?thesis by (simp add: heap_on_def)
  next
    case False
    then have j: "j < n" "j = 2 * i + 1 \<or> j = 2 * i + 2" and first: "before (xs ! j) (xs ! i)"
      by (auto simp: j_def split: if_splits)
    have "heap_but_down before m j n (list_swap xs i j)"
      by (rule heap_but_down_step [OF less.prems j first least])
    then have "heap_on before m n (heap_down (list_less before) list_swap (list_swap xs i j) j n)"
      using less.hyps [of j "list_swap xs i j"] less.prems j by auto
    with False unfold show ?thesis by simp
  qed
qed

lemma heap_root_first:
  assumes "heap_ordered before xs" and "k < length xs"
  shows "\<not> before (xs ! k) (xs ! 0)"
  using assms(2)
proof (induction k rule: less_induct)
  case (less k)
  show ?case
  proof (cases "k = 0")
    case False
    then have "parent k < k" by simp
    then show ?thesis
      using negtrans [of "xs ! k" "xs ! parent k" "xs ! 0"] less False assms(1)
      by (simp add: heap_on_def)
  qed simp
qed

lemma heap_init_fold:
  "heap_on before m n xs \<Longrightarrow> m < n \<Longrightarrow> n = length xs \<Longrightarrow>
    heap_on before 0 n
      (foldl (\<lambda>h i. heap_down (list_less before) list_swap h i n) xs (rev [0..<m]))"
proof (induction m arbitrary: xs)
  case (Suc m)
  have "heap_but_down before m m n xs"
    unfolding heap_but_down_def
  proof (intro conjI allI impI)
    fix k assume "0 < k \<and> k < n \<and> m \<le> parent k \<and> parent k \<noteq> m"
    then show "\<not> before (xs ! k) (xs ! parent k)" using Suc.prems(1) by (simp add: heap_on_def)
  next
    fix k assume "0 < k \<and> k < n \<and> parent k = m \<and> 0 < m \<and> m \<le> parent m"
    then have False using parent_less [of m] by linarith
    then show "\<not> before (xs ! k) (xs ! parent m)" ..
  qed
  then have "heap_on before m n (heap_down (list_less before) list_swap xs m n)"
    using heap_down_on [of m m n xs] Suc.prems by simp
  from Suc.IH [OF this] show ?case using Suc.prems by simp
qed simp

lemma mset_init_fold:
  "m \<le> n \<Longrightarrow> n = length xs \<Longrightarrow>
    mset (foldl (\<lambda>h i. heap_down (list_less before) list_swap h i n) xs (rev [0..<m])) = mset xs"
proof (induction m arbitrary: xs)
  case (Suc m)
  let ?ys = "heap_down (list_less before) list_swap xs m n"
  have "mset ?ys = mset xs" and "length ?ys = length xs"
    using Suc.prems by (simp_all add: mset_heap_down)
  then show ?case using Suc.IH [of ?ys] Suc.prems by simp
qed simp

lemma heap_but_up_snoc:
  assumes "heap_ordered before xs"
  shows "heap_but_up before (length xs) (xs @ [x])"
  unfolding heap_but_up_def
proof (intro conjI allI impI)
  fix k assume k: "0 < k \<and> k < length (xs @ [x]) \<and> k \<noteq> length xs"
  then have "parent k < length xs" using parent_le [of k] parent_less [of k] unfolding length_append by (simp, linarith)
  then show "\<not> before ((xs @ [x]) ! k) ((xs @ [x]) ! parent k)"
    using k assms by (simp add: nth_append heap_on_def)
next
  fix k assume "0 < k \<and> k < length (xs @ [x]) \<and> parent k = length xs \<and> 0 < length xs"
  then have False using parent_less [of k] by simp
  then show "\<not> before ((xs @ [x]) ! k) ((xs @ [x]) ! parent (length xs))" ..
qed

lemma heap_but_down_pop:
  assumes "heap_ordered before xs" and "n = length xs - 1" and "xs \<noteq> []"
  shows "heap_but_down before 0 0 n (list_swap xs 0 n)"
  unfolding heap_but_down_def
proof (intro conjI allI impI)
  fix k assume k: "0 < k \<and> k < n \<and> 0 \<le> parent k \<and> parent k \<noteq> 0"
  then have "parent k < n" using parent_less [of k] by linarith
  then show "\<not> before (list_swap xs 0 n ! k) (list_swap xs 0 n ! parent k)"
    using k assms by (auto simp: nth_list_swap heap_on_def)
qed simp

end

section \<open>The interface of a heap\<close>

text \<open>
  What \<open>container/heap\<close> relies on: the five methods act on a list of keys as their names
  say.  \<open>keys\<close> is the abstraction of a client's state to that list, \<open>key\<close> of one
  element.
\<close>

locale heap_interface = weak_order before for before :: "'k \<Rightarrow> 'k \<Rightarrow> bool" +
  fixes len :: "'h \<Rightarrow> nat"
    and lt :: "'h \<Rightarrow> nat \<Rightarrow> nat \<Rightarrow> bool"
    and swap :: "'h \<Rightarrow> nat \<Rightarrow> nat \<Rightarrow> 'h"
    and push :: "'h \<Rightarrow> 'x \<Rightarrow> 'h"
    and pop :: "'h \<Rightarrow> 'x \<times> 'h"
    and keys :: "'h \<Rightarrow> 'k list"
    and key :: "'x \<Rightarrow> 'k"
  assumes len_keys: "len h = length (keys h)"
    and lt_keys: "i < len h \<Longrightarrow> j < len h \<Longrightarrow> lt h i j = before (keys h ! i) (keys h ! j)"
    and swap_keys: "i < len h \<Longrightarrow> j < len h \<Longrightarrow> keys (swap h i j) = list_swap (keys h) i j"
    and push_keys: "keys (push h x) = keys h @ [key x]"
    and pop_key: "keys h \<noteq> [] \<Longrightarrow> key (fst (pop h)) = last (keys h)"
    and pop_keys: "keys h \<noteq> [] \<Longrightarrow> keys (snd (pop h)) = butlast (keys h)"
begin

lemma len_swap: "i < len h \<Longrightarrow> j < len h \<Longrightarrow> len (swap h i j) = len h"
  by (simp add: len_keys swap_keys)

text \<open>The routines on the client's state simulate the routines on its list of keys.\<close>

lemma keys_heap_up:
  "j < len h \<Longrightarrow> keys (heap_up lt swap h j) = heap_up (list_less before) list_swap (keys h) j"
proof (induction j arbitrary: h rule: less_induct)
  case (less j)
  let ?p = "parent j"
  have p: "?p < len h" using less.prems parent_le [of j] by linarith
  show ?case
  proof (cases "?p = j \<or> \<not> lt h j ?p")
    case True
    then show ?thesis
      using less.prems p
      by (auto simp: heap_up_unfold [of lt swap h j] heap_up_list [of before "keys h" j] lt_keys)
  next
    case False
    then have "?p < j" by (metis le_neq_implies_less parent_le)
    then have "keys (heap_up lt swap (swap h ?p j) ?p)
        = heap_up (list_less before) list_swap (list_swap (keys h) ?p j) ?p"
      using less.IH [of ?p "swap h ?p j"] less.prems p by (simp add: len_swap swap_keys)
    with False show ?thesis
      using less.prems p
      by (auto simp: heap_up_unfold [of lt swap h j] heap_up_list [of before "keys h" j] lt_keys)
  qed
qed

lemma keys_heap_down:
  "i < len h \<Longrightarrow> n \<le> len h \<Longrightarrow>
    keys (heap_down lt swap h i n) = heap_down (list_less before) list_swap (keys h) i n"
proof (induction "n - i" arbitrary: i h rule: less_induct)
  case less
  let ?j = "if 2 * i + 2 < n \<and> lt h (2 * i + 2) (2 * i + 1) then 2 * i + 2 else 2 * i + 1"
  show ?case
  proof (cases "n \<le> 2 * i + 1")
    case True
    then show ?thesis by (simp add: heap_down_unfold [of _ _ _ i])
  next
    case False
    then have bounds: "?j < n" "i < n" "i < ?j" "?j < len h" using less.prems by auto
    have eq: "?j = (if 2 * i + 2 < n \<and> before (keys h ! (2 * i + 2)) (keys h ! (2 * i + 1))
        then 2 * i + 2 else 2 * i + 1)"
      using False less.prems by (auto simp: lt_keys)
    have "keys (heap_down lt swap (swap h i ?j) ?j n)
        = heap_down (list_less before) list_swap (list_swap (keys h) i ?j) ?j n"
      using less.hyps [of ?j "swap h i ?j"] bounds less.prems by (simp add: len_swap swap_keys)
    moreover have "lt h ?j i = before (keys h ! ?j) (keys h ! i)"
      using bounds less.prems lt_keys by blast
    ultimately show ?thesis
      unfolding heap_down_unfold [of _ _ _ i] Let_def list_less_def eq using False by simp
  qed
qed

lemma keys_heap_init:
  "keys (heap_init len lt swap h) = heap_init length (list_less before) list_swap (keys h)"
proof -
  have "m \<le> n \<Longrightarrow> n = len g \<Longrightarrow> keys (foldl (\<lambda>h i. heap_down lt swap h i n) g (rev [0..<m]))
      = foldl (\<lambda>h i. heap_down (list_less before) list_swap h i n) (keys g) (rev [0..<m])"
    for m n g
  proof (induction m arbitrary: g)
    case (Suc m)
    then have "keys (heap_down lt swap g m n) = heap_down (list_less before) list_swap (keys g) m n"
      by (simp add: keys_heap_down)
    moreover from this have "len (heap_down lt swap g m n) = len g"
      by (simp add: len_keys)
    ultimately show ?case using Suc.IH [of "heap_down lt swap g m n"] Suc.prems by simp
  qed simp
  then show ?thesis by (simp add: heap_init_def Let_def len_keys)
qed

lemma init_ordered: "heap_ordered before (keys (heap_init len lt swap h))"
proof -
  let ?n = "length (keys h)"
  have start: "heap_on before (?n div 2) ?n (keys h)"
    unfolding heap_on_def parent_def by (auto dest: order_trans)
  have "mset (keys (heap_init len lt swap h)) = mset (keys h)"
    unfolding keys_heap_init by (simp add: heap_init_def Let_def mset_init_fold)
  then have "length (keys (heap_init len lt swap h)) = ?n" by (metis size_mset)
  then show ?thesis
    using heap_init_fold [OF start] unfolding keys_heap_init
    by (cases "keys h = []") (simp_all add: heap_init_def Let_def heap_on_def)
qed

lemma init_mset: "mset (keys (heap_init len lt swap h)) = mset (keys h)"
  unfolding keys_heap_init by (simp add: heap_init_def Let_def mset_init_fold)

lemma push_ordered:
  assumes "heap_ordered before (keys h)"
  shows "heap_ordered before (keys (heap_push len lt swap push h x))"
  using heap_up_ordered [OF heap_but_up_snoc [OF assms, of "key x"]]
  by (simp add: heap_push_def Let_def keys_heap_up len_keys push_keys)

lemma push_mset: "mset (keys (heap_push len lt swap push h x)) = add_mset (key x) (mset (keys h))"
  by (simp add: heap_push_def Let_def keys_heap_up len_keys push_keys mset_heap_up)

text \<open>\<open>heap.Pop\<close> takes the root out; no remaining key comes before it.\<close>

lemma pop_correct:
  assumes ord: "heap_ordered before (keys h)" and ne: "keys h \<noteq> []"
    and pop: "heap_pop len lt swap pop h = (y, h')"
  shows "key y = hd (keys h)"
    and "heap_ordered before (keys h')"
    and "mset (keys h) = add_mset (key y) (mset (keys h'))"
    and "\<And>k. k \<in> set (keys h) \<Longrightarrow> \<not> before k (key y)"
proof -
  define n where "n = length (keys h) - 1"
  define xs where "xs = list_swap (keys h) 0 n"
  define ys where "ys = heap_down (list_less before) list_swap xs 0 n"
  have n: "n < len h" "len h = Suc n" and len: "length xs = Suc n" "length ys = Suc n"
    using ne by (simp_all add: n_def len_keys xs_def ys_def)
  define g where "g = heap_down lt swap (swap h 0 n) 0 n"
  have g: "keys g = ys"
    unfolding g_def ys_def xs_def using n by (simp add: keys_heap_down len_swap swap_keys)
  have popg: "pop g = (y, h')" using pop n by (simp add: heap_pop_def g_def)
  have ne': "keys g \<noteq> []" using g len by auto
  have y: "key y = last ys" and h': "keys h' = butlast ys"
    using pop_key [OF ne'] pop_keys [OF ne'] by (simp_all add: popg g)
  have "ys ! n = xs ! n"
    unfolding ys_def by (rule heap_down_frame) (simp_all add: len)
  also have "xs ! n = keys h ! 0" using n by (simp add: xs_def nth_list_swap len_keys)
  finally have last: "last ys = keys h ! 0"
    using len by (cases ys rule: rev_cases) (auto simp: nth_append)
  then show root: "key y = hd (keys h)" using y ne by (simp add: hd_conv_nth)
  have "heap_on before 0 n ys"
    unfolding ys_def xs_def
    by (rule heap_down_on) (use heap_but_down_pop [OF ord n_def ne] n in \<open>simp_all add: len_keys\<close>)
  then have "heap_ordered before (butlast ys)"
    using heap_on_butlast [of before ys] len by simp
  then show "heap_ordered before (keys h')" by (simp add: h')
  have "mset ys = mset xs"
  proof (cases "n = 0")
    case True
    then show ?thesis unfolding ys_def by (subst heap_down_unfold) simp
  next
    case False
    then show ?thesis unfolding ys_def by (simp add: mset_heap_down len)
  qed
  also have "mset xs = mset (keys h)" using n by (simp add: xs_def len_keys)
  finally have "mset (keys h) = mset (butlast ys @ [last ys])" using len
    by (metis append_butlast_last_id length_0_conv nat.simps(3))
  then show "mset (keys h) = add_mset (key y) (mset (keys h'))" by (simp add: y h')
  show "\<not> before k (key y)" if "k \<in> set (keys h)" for k
    using heap_root_first [OF ord] that y last by (auto simp: in_set_conv_nth)
qed

end

end
