(* ===== verification/Errors.thy ===== *)
theory Errors
  imports Prelude
begin

text \<open>
  Error values (\<open>pkg/worker/errors.go\<close>) and the error values that the standard library
  and the rest of the code build: \<open>errors.New\<close>, \<open>fmt.Errorf\<close> with
  \<open>%w\<close>, the two context errors, the sentinels of the package, and the structs
  \<open>TaskError\<close> and \<open>TaskTimeoutError\<close>.  \<open>error_text\<close> is the
  \<open>Error()\<close> method, \<open>unwrap\<close> the \<open>Unwrap()\<close> method, and
  \<open>errors_is\<close> is \<open>errors.Is\<close> on these values.

  Two \<open>errors.New\<close> values with the same text are equal in the model, where Go
  compares their addresses; the code only ever compares with the context errors and the
  sentinels, for which the model has constructors of their own.
\<close>

section \<open>Values\<close>

datatype sentinel =
    SentTaskQueueFull | SentManagerNotStarted | SentManagerShuttingDown | SentTaskCanceled
  | SentTaskTimeout | SentTaskValidation | SentInvalidTask | SentWorkerBusy | SentWorkerStopped

datatype go_error =
    ErrorNew string
  | Errorf string go_error
  | Canceled
  | DeadlineExceeded
  | Sentinel sentinel
  | TaskError (te_task_id: string) (te_attempt: goint) (te_message: string)
      (te_cause: "go_error option")
  | TaskTimeoutError (tte_task_id: string) (tte_timeout: duration)

fun sentinel_text :: "sentinel \<Rightarrow> string" where
  "sentinel_text SentTaskQueueFull = ''task queue is full''"
| "sentinel_text SentManagerNotStarted = ''manager not started''"
| "sentinel_text SentManagerShuttingDown = ''manager is shutting down''"
| "sentinel_text SentTaskCanceled = ''task canceled''"
| "sentinel_text SentTaskTimeout = ''task timeout''"
| "sentinel_text SentTaskValidation = ''task validation failed''"
| "sentinel_text SentInvalidTask = ''invalid task''"
| "sentinel_text SentWorkerBusy = ''worker is busy''"
| "sentinel_text SentWorkerStopped = ''worker is stopped''"

definition NewTaskError :: "string \<Rightarrow> goint \<Rightarrow> string \<Rightarrow> go_error option \<Rightarrow> go_error" where
  "NewTaskError taskID attempt message cause = TaskError taskID attempt message cause"

section \<open>Formatting\<close>

text \<open>Decimal integers (\<open>%d\<close>).\<close>

definition digit_char :: "nat \<Rightarrow> char" where
  "digit_char d = char_of (48 + d)"

fun show_nat :: "nat \<Rightarrow> string" where
  "show_nat n = (if n < 10 then [digit_char n] else show_nat (n div 10) @ [digit_char (n mod 10)])"

declare show_nat.simps [simp del]

definition show_int :: "int \<Rightarrow> string" where
  "show_int i = (if i < 0 then CHR ''-'' # show_nat (nat (- i)) else show_nat (nat i))"

text \<open>
  \<open>Duration.String\<close> (the \<open>%v\<close> of a duration): the fraction loses its
  trailing zeros, and below one second the unit is chosen so that the leading digit is not zero.
  The micro sign is the two bytes of its UTF-8 encoding.
\<close>

fun fmt_digits :: "nat \<Rightarrow> nat \<Rightarrow> string" where
  "fmt_digits 0 v = []"
| "fmt_digits (Suc p) v = fmt_digits p (v div 10) @ [digit_char (v mod 10)]"

definition fmt_frac :: "nat \<Rightarrow> nat \<Rightarrow> string" where
  "fmt_frac v prec =
     (let ds = rev (dropWhile (\<lambda>c. c = CHR ''0'') (rev (fmt_digits prec v)))
      in if ds = [] then [] else CHR ''.'' # ds)"

definition fmt_scaled :: "nat \<Rightarrow> nat \<Rightarrow> string \<Rightarrow> string" where
  "fmt_scaled u prec unit = show_nat (u div 10 ^ prec) @ fmt_frac u prec @ unit"

definition fmt_seconds :: "nat \<Rightarrow> string" where
  "fmt_seconds u =
     (let s = u div 1000000000; m = s div 60; h = m div 60;
          ss = show_nat (s mod 60) @ fmt_frac u 9 @ ''s''
      in if m = 0 then ss
         else if h = 0 then show_nat (m mod 60) @ ''m'' @ ss
         else show_nat h @ ''h'' @ show_nat (m mod 60) @ ''m'' @ ss)"

definition duration_string :: "duration \<Rightarrow> string" where
  "duration_string d =
     (let u = nat \<bar>d\<bar>;
          body = (if u = 0 then ''0s''
                  else if u < 1000 then fmt_scaled u 0 ''ns''
                  else if u < 1000000 then fmt_scaled u 3 [char_of (194::nat), char_of (181::nat), CHR ''s'']
                  else if u < 1000000000 then fmt_scaled u 6 ''ms''
                  else fmt_seconds u)
      in if d < 0 then CHR ''-'' # body else body)"

section \<open>Methods\<close>

definition timeout_error_text :: "string \<Rightarrow> duration \<Rightarrow> string" where
  "timeout_error_text tid timeout = ''task '' @ tid @ '' timed out after '' @ duration_string timeout"

fun error_text :: "go_error \<Rightarrow> string" where
  "error_text (ErrorNew s) = s"
| "error_text (Errorf prefix e) = prefix @ error_text e"
| "error_text Canceled = ''context canceled''"
| "error_text DeadlineExceeded = ''context deadline exceeded''"
| "error_text (Sentinel s) = sentinel_text s"
| "error_text (TaskError tid attempt message cause) =
     ''task '' @ tid @ '' failed on attempt '' @ show_int attempt @ '': '' @ message"
| "error_text (TaskTimeoutError tid timeout) = timeout_error_text tid timeout"

fun unwrap :: "go_error \<Rightarrow> go_error option" where
  "unwrap (Errorf prefix e) = Some e"
| "unwrap (TaskError tid attempt message cause) = cause"
| "unwrap _ = None"

text \<open>\<open>errors.Is\<close>: follow \<open>Unwrap\<close> until the target is met.\<close>

fun errors_is :: "go_error \<Rightarrow> go_error \<Rightarrow> bool" where
  "errors_is (Errorf prefix e) target \<longleftrightarrow> Errorf prefix e = target \<or> errors_is e target"
| "errors_is (TaskError tid attempt message (Some c)) target \<longleftrightarrow>
     TaskError tid attempt message (Some c) = target \<or> errors_is c target"
| "errors_is e target \<longleftrightarrow> e = target"

section \<open>Facts\<close>

lemma errors_is_refl [simp]: "errors_is e e"
  by (cases "(e, e)" rule: errors_is.cases) auto

lemma errors_is_unwrap: "unwrap e = Some c \<Longrightarrow> errors_is c t \<Longrightarrow> errors_is e t"
  by (cases e rule: unwrap.cases) auto

lemma unwrap_NewTaskError [simp]: "unwrap (NewTaskError tid n m c) = c"
  by (simp add: NewTaskError_def)

lemma NewTaskError_inject [simp]:
  "NewTaskError a b c d = NewTaskError a' b' c' d' \<longleftrightarrow> a = a' \<and> b = b' \<and> c = c' \<and> d = d'"
  by (simp add: NewTaskError_def)

lemma errors_is_NewTaskError: "errors_is c t \<Longrightarrow> errors_is (NewTaskError tid n m (Some c)) t"
  by (rule errors_is_unwrap) simp_all

text \<open>Digits are read back to the number they show.\<close>

definition digit_val :: "char \<Rightarrow> nat" where
  "digit_val c = of_char c - 48"

definition read_nat :: "string \<Rightarrow> nat" where
  "read_nat = foldl (\<lambda>n c. 10 * n + digit_val c) 0"

lemma digit_val_char: "d < 10 \<Longrightarrow> digit_val (digit_char d) = d"
  by (simp add: digit_val_def digit_char_def)

lemma read_show_nat: "read_nat (show_nat n) = n"
proof (induction n rule: show_nat.induct)
  case (1 n)
  then show ?case
    by (cases "n < 10")
      (auto simp: read_nat_def digit_val_char show_nat.simps [of n])
qed

lemma show_nat_digits: "c \<in> set (show_nat n) \<Longrightarrow> 48 \<le> (of_char c :: nat) \<and> (of_char c :: nat) \<le> 57"
proof (induction n rule: show_nat.induct)
  case (1 n)
  then show ?case
    by (cases "n < 10") (auto simp: show_nat.simps [of n] digit_char_def)
qed

lemma inj_show_nat: "show_nat m = show_nat n \<longleftrightarrow> m = n"
  by (metis read_show_nat)

lemma show_nat_no_minus: "show_nat n \<noteq> CHR ''-'' # xs"
proof
  assume "show_nat n = CHR ''-'' # xs"
  then have "CHR ''-'' \<in> set (show_nat n)" by simp
  then show False by (auto dest: show_nat_digits)
qed

lemma show_int_inject: "show_int i = show_int j \<longleftrightarrow> i = j"
  by (auto simp: show_int_def inj_show_nat show_nat_no_minus show_nat_no_minus [symmetric]
      split: if_splits)

end
