(* ===== verification/Runtime.thy ===== *)
theory Runtime
  imports Errors
begin

text \<open>
  The parts of the Go runtime that the code observes.

  \<^item> A call ends by returning a value and an error, by panicking, or by taking the whole process
    down (a panic on a goroutine whose stack has no \<open>recover\<close>).
  \<^item> A \<open>context.Context\<close> is modelled by the instant at which it is done, with the error that
    \<open>Err()\<close> gives from then on; \<open>None\<close> is a context that is never done.
  \<^item> The world is a clock, the number of user functions called so far, the log, and an oracle
    of coins for \<open>select\<close> statements with several ready cases.  The clock
    advances in user functions and in waits; a goroutine reacts to an event at the instant of the
    event.
\<close>

section \<open>Outcomes of calls\<close>

datatype panic_val = PanicError go_error | PanicString string | PanicOther

datatype 'o outcome =
    Return "'o option" "go_error option"
  | Panic panic_val
  | Crash panic_val

section \<open>Contexts\<close>

record ctx =
  done_at :: "(instant \<times> go_error) option"

definition background :: ctx where
  "background = \<lparr>done_at = None\<rparr>"

definition ctx_err :: "ctx \<Rightarrow> instant \<Rightarrow> go_error option" where
  "ctx_err c t = (case done_at c of None \<Rightarrow> None | Some (d, e) \<Rightarrow> if d \<le> t then Some e else None)"

text \<open>\<open>context.WithTimeout\<close> at instant \<open>t\<close>: the parent's end or the deadline,
  whichever comes first.\<close>

definition with_timeout :: "ctx \<Rightarrow> duration \<Rightarrow> instant \<Rightarrow> ctx" where
  "with_timeout c d t =
     (case done_at c of
        None \<Rightarrow> \<lparr>done_at = Some (t + d, DeadlineExceeded)\<rparr>
      | Some (p, e) \<Rightarrow>
          if p \<le> max t (t + d) then c else \<lparr>done_at = Some (t + d, DeadlineExceeded)\<rparr>)"

text \<open>Cancelling at instant \<open>t\<close> (the \<open>CancelFunc\<close> of \<open>WithCancel\<close>).\<close>

definition cancel_at :: "ctx \<Rightarrow> instant \<Rightarrow> ctx" where
  "cancel_at c t =
     (case done_at c of
        None \<Rightarrow> \<lparr>done_at = Some (t, Canceled)\<rparr>
      | Some (p, e) \<Rightarrow> if p \<le> t then c else \<lparr>done_at = Some (t, Canceled)\<rparr>)"

lemma ctx_err_background [simp]: "ctx_err background t = None"
  by (simp add: ctx_err_def background_def)

text \<open>Once done, a context stays done with the same error.\<close>

lemma ctx_err_stable: "ctx_err c t = Some e \<Longrightarrow> t \<le> u \<Longrightarrow> ctx_err c u = Some e"
  by (auto simp: ctx_err_def split: option.splits if_splits)

lemma ctx_err_cancel_at: "t \<le> u \<Longrightarrow> ctx_err (cancel_at c t) u \<noteq> None"
  by (auto simp: ctx_err_def cancel_at_def split: option.splits)

lemma ctx_err_with_timeout: "t + d \<le> u \<Longrightarrow> t \<le> u \<Longrightarrow> ctx_err (with_timeout c d t) u \<noteq> None"
  by (auto simp: ctx_err_def with_timeout_def split: option.splits)

lemma with_timeout_parent: "ctx_err c t = Some e \<Longrightarrow> ctx_err (with_timeout c d t) t = Some e"
  by (auto simp: ctx_err_def with_timeout_def split: option.splits if_splits)

lemma with_timeout_early:
  "ctx_err (with_timeout c d t) u = Some e \<Longrightarrow> t \<le> u \<Longrightarrow> u < t + d \<Longrightarrow> ctx_err c u = Some e"
  by (auto simp: ctx_err_def with_timeout_def split: option.splits if_splits)

lemma with_timeout_done:
  "0 < d \<Longrightarrow> \<exists>u e. done_at (with_timeout c d t) = Some (u, e) \<and> max t u \<le> t + d"
  by (auto simp: with_timeout_def split: option.splits)

section \<open>The world\<close>

record world =
  now :: instant
  calls :: nat
  journal :: "string list"
  coins :: "nat \<Rightarrow> bool"
  flips :: nat

definition advance :: "nat \<Rightarrow> world \<Rightarrow> world" where
  "advance d w = w\<lparr>now := now w + int d\<rparr>"

definition log_line :: "string \<Rightarrow> world \<Rightarrow> world" where
  "log_line s w = w\<lparr>journal := journal w @ [s]\<rparr>"

text \<open>
  A \<open>select\<close> over \<open>ctx.Done()\<close> and one other event that is ready from instant
  \<open>ev\<close> on: the earlier one is taken, and the coin decides a tie.  The result is the
  context's error when \<open>Done()\<close> was taken.
\<close>

definition select_done :: "ctx \<Rightarrow> instant \<Rightarrow> world \<Rightarrow> go_error option \<times> world" where
  "select_done c ev w =
     (let te = max (now w) ev
      in case done_at c of
           None \<Rightarrow> (None, w\<lparr>now := te\<rparr>)
         | Some (d, e) \<Rightarrow>
             let tc = max (now w) d
             in if tc < te then (Some e, w\<lparr>now := tc\<rparr>)
                else if te < tc then (None, w\<lparr>now := te\<rparr>)
                else (if coins w (flips w) then Some e else None,
                      w\<lparr>now := te, flips := Suc (flips w)\<rparr>))"

text \<open>User code: given the context, the instant of the call and the number of calls made before
  it, what it returns and how long it takes.\<close>

type_synonym 'o task_func = "ctx \<Rightarrow> instant \<Rightarrow> nat \<Rightarrow> 'o outcome \<times> nat"

definition call_func :: "'o task_func \<Rightarrow> ctx \<Rightarrow> world \<Rightarrow> 'o outcome \<times> world" where
  "call_func f c w =
     (case f c (now w) (calls w) of (r, d) \<Rightarrow> (r, advance d w\<lparr>calls := Suc (calls w)\<rparr>))"

text \<open>Time never runs backwards.\<close>

lemma advance_simps [simp]:
  "now (advance d w) = now w + int d" "calls (advance d w) = calls w"
  "journal (advance d w) = journal w" "coins (advance d w) = coins w"
  "flips (advance d w) = flips w"
  by (simp_all add: advance_def)

lemma log_line_simps [simp]:
  "now (log_line s w) = now w" "calls (log_line s w) = calls w"
  "journal (log_line s w) = journal w @ [s]"
  by (simp_all add: log_line_def)

lemma now_call_func: "call_func f c w = (r, w') \<Longrightarrow> now w \<le> now w'"
  by (auto simp: call_func_def split: prod.splits)

lemma now_select_done: "select_done c ev w = (r, w') \<Longrightarrow> now w \<le> now w'"
  by (auto simp: select_done_def Let_def split: option.splits if_splits prod.splits)

lemma calls_select_done: "select_done c ev w = (r, w') \<Longrightarrow> calls w' = calls w"
  by (auto simp: select_done_def Let_def split: option.splits if_splits prod.splits)

lemma now_select_done_le: "select_done c ev w = (r, w') \<Longrightarrow> now w' \<le> max (now w) ev"
  by (auto simp: select_done_def Let_def split: option.splits if_splits prod.splits)

lemma select_done_Some: "select_done c ev w = (Some e, w') \<Longrightarrow> ctx_err c (now w') = Some e"
  by (auto simp: select_done_def ctx_err_def Let_def split: option.splits if_splits prod.splits)

lemma select_done_None:
  "select_done c ev w = (None, w') \<Longrightarrow> now w' = max (now w) ev"
  by (auto simp: select_done_def Let_def split: option.splits if_splits prod.splits)

text \<open>Waiting never outlasts the context.\<close>

lemma select_done_deadline:
  "select_done c ev w = (r, w') \<Longrightarrow> done_at c = Some (d, e) \<Longrightarrow> now w' \<le> max (now w) d"
  by (auto simp: select_done_def Let_def split: if_splits)

end
