(* ===== verification/Task.thy ===== *)
theory Task
  imports Runtime
begin

text \<open>
  Tasks (\<open>pkg/worker/task.go\<close>).

  A value of the interface \<open>Task\<close> is modelled by its method table, the record
  \<open>task\<close>, with the dynamic type in \<open>t_dyn\<close> (which the manager's type assertion
  inspects).  \<open>SimpleTask\<close> and \<open>FunctionTask\<close> are records with the source's
  fields; their builder methods update the record that they return.  A callback
  \<open>func(Result)\<close> is an abstract token of type \<open>'cb\<close>, and a validator is a function of
  the instant at which it is called.
\<close>

section \<open>The interface\<close>

datatype 'cb dyn_type =
    DynSimpleTask "'cb option"
  | DynFunctionTask "'cb option"
  | DynWrappedTask
  | DynOther

record ('o, 'cb) task =
  t_id :: string
  t_type :: string
  t_priority :: goint
  t_max_retries :: goint
  t_validate :: "instant \<Rightarrow> go_error option"
  t_execute :: "ctx \<Rightarrow> world \<Rightarrow> 'o outcome \<times> world"
  t_dyn :: "'cb dyn_type"

section \<open>SimpleTask\<close>

record ('o, 'cb) simple_task =
  TaskID :: string
  TaskType :: string
  TaskPriority :: goint
  MaxRetry :: goint
  Function :: "'o task_func option"
  ValidateFunc :: "(instant \<Rightarrow> go_error option) option"
  Timeout :: duration
  Callback :: "'cb option"

definition NewSimpleTask :: "string \<Rightarrow> string \<Rightarrow> 'o task_func option \<Rightarrow> ('o, 'cb) simple_task" where
  "NewSimpleTask tid ttype fn =
     \<lparr>TaskID = tid, TaskType = ttype, TaskPriority = 0, MaxRetry = 3, Function = fn,
      ValidateFunc = None, Timeout = 0, Callback = None\<rparr>"

definition WithPriority :: "goint \<Rightarrow> ('o, 'cb) simple_task \<Rightarrow> ('o, 'cb) simple_task" where
  "WithPriority p t = t\<lparr>TaskPriority := p\<rparr>"

definition WithRetries :: "goint \<Rightarrow> ('o, 'cb) simple_task \<Rightarrow> ('o, 'cb) simple_task" where
  "WithRetries n t = t\<lparr>MaxRetry := n\<rparr>"

definition WithTimeout :: "duration \<Rightarrow> ('o, 'cb) simple_task \<Rightarrow> ('o, 'cb) simple_task" where
  "WithTimeout d t = t\<lparr>Timeout := d\<rparr>"

definition WithValidator ::
  "(instant \<Rightarrow> go_error option) option \<Rightarrow> ('o, 'cb) simple_task \<Rightarrow> ('o, 'cb) simple_task" where
  "WithValidator v t = t\<lparr>ValidateFunc := v\<rparr>"

definition WithCallback :: "'cb option \<Rightarrow> ('o, 'cb) simple_task \<Rightarrow> ('o, 'cb) simple_task" where
  "WithCallback cb t = t\<lparr>Callback := cb\<rparr>"

definition simple_Validate :: "('o, 'cb) simple_task \<Rightarrow> instant \<Rightarrow> go_error option" where
  "simple_Validate t i =
     (if TaskID t = [] then Some (ErrorNew ''task ID cannot be empty'')
      else if Function t = None then Some (ErrorNew ''task function cannot be nil'')
      else case ValidateFunc t of Some v \<Rightarrow> v i | None \<Rightarrow> None)"

definition simple_Execute :: "('o, 'cb) simple_task \<Rightarrow> ctx \<Rightarrow> world \<Rightarrow> 'o outcome \<times> world" where
  "simple_Execute t c w =
     (case Function t of
        None \<Rightarrow> (Return None (Some (ErrorNew ''task function is nil'')), w)
      | Some f \<Rightarrow> call_func f c w)"

definition simple_iface :: "('o, 'cb) simple_task \<Rightarrow> ('o, 'cb) task" where
  "simple_iface t =
     \<lparr>t_id = TaskID t, t_type = TaskType t, t_priority = TaskPriority t,
      t_max_retries = MaxRetry t, t_validate = simple_Validate t,
      t_execute = simple_Execute t, t_dyn = DynSimpleTask (Callback t)\<rparr>"

section \<open>FunctionTask\<close>

text \<open>The embedded \<open>*SimpleTask\<close> is the field \<open>ft_simple\<close>.\<close>

record ('o, 'cb) function_task =
  ft_simple :: "('o, 'cb) simple_task"
  ft_startTime :: instant
  ft_timeout :: duration
  ft_callback :: "'cb option"

definition nil_func :: "'o task_func" where
  "nil_func c i k = (Return None (Some (ErrorNew ''task function is nil'')), 0)"

definition NewFunctionTask ::
  "string \<Rightarrow> 'o task_func option \<Rightarrow> instant \<Rightarrow> ('o, 'cb) function_task" where
  "NewFunctionTask tid fn i =
     \<lparr>ft_simple = \<lparr>TaskID = tid, TaskType = ''function'', TaskPriority = 0, MaxRetry = 3,
        Function = Some (case fn of None \<Rightarrow> nil_func | Some f \<Rightarrow> f),
        ValidateFunc = None, Timeout = 0, Callback = None\<rparr>,
      ft_startTime = i, ft_timeout = 0, ft_callback = None\<rparr>"

definition ft_WithTimeout :: "duration \<Rightarrow> ('o, 'cb) function_task \<Rightarrow> ('o, 'cb) function_task" where
  "ft_WithTimeout d t = t\<lparr>ft_timeout := d\<rparr>"

definition ft_WithCallback :: "'cb option \<Rightarrow> ('o, 'cb) function_task \<Rightarrow> ('o, 'cb) function_task" where
  "ft_WithCallback cb t = t\<lparr>ft_callback := cb\<rparr>"

definition ft_GetCallback :: "('o, 'cb) function_task \<Rightarrow> 'cb option" where
  "ft_GetCallback t = ft_callback t"

text \<open>
  \<open>WithRetries\<close>, \<open>WithPriority\<close> and \<open>WithValidator\<close> of a
  \<open>FunctionTask\<close> are promoted from the embedded \<open>*SimpleTask\<close>: they update it and
  return it, not the \<open>FunctionTask\<close> around it.
\<close>

definition ft_promoted ::
  "(('o, 'cb) simple_task \<Rightarrow> ('o, 'cb) simple_task) \<Rightarrow> ('o, 'cb) function_task \<Rightarrow>
    ('o, 'cb) function_task \<times> ('o, 'cb) simple_task" where
  "ft_promoted upd t = (let s = upd (ft_simple t) in (t\<lparr>ft_simple := s\<rparr>, s))"

text \<open>
  With a timeout the function runs on a goroutine of its own under the timeout context; the
  caller takes whichever comes first.  A panic on that goroutine is not recovered by anyone.
\<close>

definition timeout_error :: "('o, 'cb) function_task \<Rightarrow> go_error \<Rightarrow> go_error" where
  "timeout_error t e =
     (if errors_is e DeadlineExceeded then TaskTimeoutError (TaskID (ft_simple t)) (ft_timeout t)
      else e)"

definition ft_Execute :: "('o, 'cb) function_task \<Rightarrow> ctx \<Rightarrow> world \<Rightarrow> 'o outcome \<times> world" where
  "ft_Execute t c w =
     (if ft_timeout t \<le> 0 then simple_Execute (ft_simple t) c w
      else let tc = with_timeout c (ft_timeout t) (now w);
               (r, w1) = simple_Execute (ft_simple t) tc w;
               (sel, w2) = select_done tc (now w1) (w1\<lparr>now := now w\<rparr>)
           in case sel of
                Some e \<Rightarrow> (Return None (Some (timeout_error t e)), w2)
              | None \<Rightarrow> ((case r of Panic v \<Rightarrow> Crash v | _ \<Rightarrow> r), w2))"

definition ft_iface :: "('o, 'cb) function_task \<Rightarrow> ('o, 'cb) task" where
  "ft_iface t =
     \<lparr>t_id = TaskID (ft_simple t), t_type = TaskType (ft_simple t),
      t_priority = TaskPriority (ft_simple t), t_max_retries = MaxRetry (ft_simple t),
      t_validate = simple_Validate (ft_simple t),
      t_execute = ft_Execute t, t_dyn = DynFunctionTask (ft_callback t)\<rparr>"

lemmas builder_defs =
  NewSimpleTask_def WithPriority_def WithRetries_def WithTimeout_def WithValidator_def
  WithCallback_def NewFunctionTask_def ft_WithTimeout_def ft_WithCallback_def ft_promoted_def

section \<open>Facts\<close>

lemma now_simple_Execute: "simple_Execute t c w = (r, w') \<Longrightarrow> now w \<le> now w'"
  by (auto simp: simple_Execute_def split: option.splits dest: now_call_func)

lemma now_ft_Execute: "ft_Execute t c w = (r, w') \<Longrightarrow> now w \<le> now w'"
  by (auto simp: ft_Execute_def Let_def split: if_splits prod.splits option.splits
      dest: now_simple_Execute now_select_done)

section \<open>Properties\<close>

text \<open>A \<open>FunctionTask\<close> with a timeout is back no later than the timeout, whatever its function does
  and whichever context it runs under, and time never runs backwards.\<close>

lemma ft_Execute_deadline:
  assumes "0 < ft_timeout t" and "ft_Execute t c w = (r, w')"
  shows "now w \<le> now w' \<and> now w' \<le> now w + ft_timeout t"
proof -
  let ?tc = "with_timeout c (ft_timeout t) (now w)"
  obtain d e where d: "done_at ?tc = Some (d, e)" "max (now w) d \<le> now w + ft_timeout t"
    using with_timeout_done [OF assms(1)] by blast
  obtain r1 w1 sel w2 where run: "simple_Execute (ft_simple t) ?tc w = (r1, w1)"
    "select_done ?tc (now w1) (w1\<lparr>now := now w\<rparr>) = (sel, w2)"
    by (metis surj_pair)
  then have "w' = w2" using assms by (auto simp: ft_Execute_def split: option.splits)
  then show ?thesis
    using select_done_deadline [OF run(2) d(1)] d(2) now_ft_Execute [OF assms(2)] by simp linarith
qed

definition sample_ft :: "duration \<Rightarrow> nat outcome \<times> nat \<Rightarrow> (nat, unit) function_task" where
  "sample_ft d out = ft_WithTimeout d (NewFunctionTask ''job'' (Some (\<lambda>c i k. out)) 0)"

definition idle_world :: world where
  "idle_world = \<lparr>now = 100, calls = 0, journal = [], coins = (\<lambda>_. False), flips = 0\<rparr>"

lemmas sample_ft_defs = sample_ft_def idle_world_def builder_defs

text \<open>C31: What a \<open>FunctionTask\<close> with a timeout returns, when the caller's context does not end first: the
  function's own result if it is back before the timeout, with a panic taking the process down because
  the function runs on a goroutine of its own, and otherwise a \<open>TaskTimeoutError\<close> with the task's
  identifier and timeout, exactly at the timeout.\<close>

theorem ft_Execute_race:
  assumes "0 < ft_timeout t" and "Function (ft_simple t) = Some f"
    and "done_at c = None \<or> (\<exists>p e. done_at c = Some (p, e) \<and> now w + ft_timeout t < p)"
    and "f (with_timeout c (ft_timeout t) (now w)) (now w) (calls w) = (r, d)"
    and "int d \<noteq> ft_timeout t"
  shows "ft_Execute t c w =
    (if int d < ft_timeout t
     then (case r of Panic v \<Rightarrow> Crash v | _ \<Rightarrow> r, w\<lparr>now := now w + int d, calls := Suc (calls w)\<rparr>)
     else (Return None (Some (TaskTimeoutError (TaskID (ft_simple t)) (ft_timeout t))),
           w\<lparr>now := now w + ft_timeout t, calls := Suc (calls w)\<rparr>))"
proof -
  have tc: "done_at (with_timeout c (ft_timeout t) (now w)) = Some (now w + ft_timeout t, DeadlineExceeded)"
    using assms(1,3) by (auto simp: with_timeout_def)
  have run: "simple_Execute (ft_simple t) (with_timeout c (ft_timeout t) (now w)) w =
      (r, advance d w\<lparr>calls := Suc (calls w)\<rparr>)"
    using assms(2,4) by (simp add: simple_Execute_def call_func_def)
  show ?thesis
    using assms(1,5) tc run by (simp add: ft_Execute_def select_done_def advance_def timeout_error_def Let_def)
qed

theorem ft_Execute_race_witness:
  "fst (ft_Execute (sample_ft 5 (Panic PanicOther, 3)) background idle_world) = Crash PanicOther \<and>
   fst (ft_Execute (sample_ft 5 (Return (Some 1) None, 9)) background idle_world) =
     Return None (Some (TaskTimeoutError ''job'' 5))"
  using ft_Execute_race [of "sample_ft 5 (Panic PanicOther, 3)" "\<lambda>c i k. (Panic PanicOther, 3)" background
      idle_world "Panic PanicOther" 3]
    ft_Execute_race [of "sample_ft 5 (Return (Some 1) None, 9)" "\<lambda>c i k. (Return (Some 1) None, 9)" background
      idle_world "Return (Some 1) None" 9]
  by (simp add: sample_ft_defs background_def)

text \<open>\<open>WithRetries\<close>, \<open>WithPriority\<close> and \<open>WithValidator\<close> called on a \<open>FunctionTask\<close> return the embedded
  \<open>SimpleTask\<close>: the chain \<open>NewFunctionTask(..).WithTimeout(d).WithRetries(n)\<close> of the README gives a task
  that behaves as if no timeout had been set.\<close>

lemma promoted_chain_loses_timeout:
  "snd (ft_promoted (WithRetries n) (ft_WithTimeout d (NewFunctionTask tid fn i))) =
     WithRetries n (ft_simple (NewFunctionTask tid fn i)) \<and>
   simple_Execute (snd (ft_promoted (WithRetries n) (ft_WithTimeout d (NewFunctionTask tid (Some f) i)))) c w
     = call_func f c w"
  by (simp add: builder_defs simple_Execute_def Let_def)

end
