(* ===== verification/Priority_Queue.thy ===== *)
theory Priority_Queue
  imports Go_Heap Task
begin

text \<open>
  The priority queue (\<open>pkg/worker/priority_queue.go\<close>): \<open>taskHeap\<close> with its five
  \<open>heap.Interface\<close> methods, and \<open>PriorityQueue\<close> with \<open>Push\<close>, \<open>Pop\<close>,
  \<open>Len\<close> and \<open>Peek\<close> on top of \<open>container/heap\<close>.

  Items are allocated by \<open>Push\<close> and never shared, so a \<open>[]*taskItem\<close> is a list of
  item records.  The wall clock reading of \<open>Push\<close> is an argument.  The type assertions of
  \<open>Push\<close> and \<open>Pop\<close> always succeed, as only \<open>*taskItem\<close> values reach the heap.
\<close>

section \<open>taskHeap\<close>

record ('o, 'cb) taskItem =
  item_task :: "('o, 'cb) task"
  item_priority :: goint
  item_timestamp :: int
  item_index :: goint

type_synonym ('o, 'cb) taskHeap = "('o, 'cb) taskItem list"

definition heap_Len :: "('o, 'cb) taskHeap \<Rightarrow> nat" where
  "heap_Len h = length h"

definition heap_Less :: "('o, 'cb) taskHeap \<Rightarrow> nat \<Rightarrow> nat \<Rightarrow> bool" where
  "heap_Less h i j =
     (if item_priority (h ! i) \<noteq> item_priority (h ! j)
      then item_priority (h ! i) > item_priority (h ! j)
      else item_timestamp (h ! i) < item_timestamp (h ! j))"

definition heap_Swap :: "('o, 'cb) taskHeap \<Rightarrow> nat \<Rightarrow> nat \<Rightarrow> ('o, 'cb) taskHeap" where
  "heap_Swap h i j =
     (let h1 = h[i := h ! j, j := h ! i];
          h2 = h1[i := (h1 ! i)\<lparr>item_index := int i\<rparr>]
      in h2[j := (h2 ! j)\<lparr>item_index := int j\<rparr>])"

definition heap_Push :: "('o, 'cb) taskHeap \<Rightarrow> ('o, 'cb) taskItem \<Rightarrow> ('o, 'cb) taskHeap" where
  "heap_Push h x = h @ [x\<lparr>item_index := int (length h)\<rparr>]"

definition heap_Pop :: "('o, 'cb) taskHeap \<Rightarrow> ('o, 'cb) taskItem \<times> ('o, 'cb) taskHeap" where
  "heap_Pop h = ((last h)\<lparr>item_index := - 1\<rparr>, butlast h)"

section \<open>PriorityQueue\<close>

record ('o, 'cb) priority_queue =
  pq_queue :: "('o, 'cb) taskHeap"
  pq_count :: goint

definition NewPriorityQueue :: "('o, 'cb) priority_queue" where
  "NewPriorityQueue = \<lparr>pq_queue = heap_init heap_Len heap_Less heap_Swap [], pq_count = 0\<rparr>"

definition pq_Push ::
  "('o, 'cb) task \<Rightarrow> int \<Rightarrow> ('o, 'cb) priority_queue \<Rightarrow> ('o, 'cb) priority_queue" where
  "pq_Push t clock q =
     (let item = \<lparr>item_task = t, item_priority = t_priority t, item_timestamp = clock,
                  item_index = pq_count q\<rparr>
      in q\<lparr>pq_count := wrap64 (pq_count q + 1),
           pq_queue := heap_push heap_Len heap_Less heap_Swap heap_Push (pq_queue q) item\<rparr>)"

definition pq_Pop ::
  "('o, 'cb) priority_queue \<Rightarrow> ('o, 'cb) task option \<times> ('o, 'cb) priority_queue" where
  "pq_Pop q =
     (if heap_Len (pq_queue q) = 0 then (None, q)
      else case heap_pop heap_Len heap_Less heap_Swap heap_Pop (pq_queue q) of
             (item, h) \<Rightarrow> (Some (item_task item), q\<lparr>pq_queue := h\<rparr>))"

definition pq_Len :: "('o, 'cb) priority_queue \<Rightarrow> nat" where
  "pq_Len q = heap_Len (pq_queue q)"

definition pq_Peek :: "('o, 'cb) priority_queue \<Rightarrow> ('o, 'cb) task option" where
  "pq_Peek q = (if heap_Len (pq_queue q) = 0 then None else Some (item_task (pq_queue q ! 0)))"

section \<open>Keys and their order\<close>

text \<open>What the order sees of an item, and the abstract content of a queue.\<close>

type_synonym ('o, 'cb) item_key = "goint \<times> int \<times> ('o, 'cb) task"

fun item_before :: "('o, 'cb) item_key \<Rightarrow> ('o, 'cb) item_key \<Rightarrow> bool" where
  "item_before (p, t, x) (p', t', x') = (if p \<noteq> p' then p > p' else t < t')"

definition item_key :: "('o, 'cb) taskItem \<Rightarrow> ('o, 'cb) item_key" where
  "item_key x = (item_priority x, item_timestamp x, item_task x)"

definition pq_bag :: "('o, 'cb) priority_queue \<Rightarrow> ('o, 'cb) item_key multiset" where
  "pq_bag q = mset (map item_key (pq_queue q))"

definition indices_ok :: "('o, 'cb) taskHeap \<Rightarrow> bool" where
  "indices_ok h \<longleftrightarrow> (\<forall>i < length h. item_index (h ! i) = int i)"

definition pq_ok :: "('o, 'cb) priority_queue \<Rightarrow> bool" where
  "pq_ok q \<longleftrightarrow> heap_ordered item_before (map item_key (pq_queue q)) \<and> indices_ok (pq_queue q)"

text \<open>The README's loop, pop until the queue is empty, for any queue.\<close>

fun drain_with :: "('q \<Rightarrow> 'x option \<times> 'q) \<Rightarrow> nat \<Rightarrow> 'q \<Rightarrow> 'x list \<times> 'q" where
  "drain_with pop 0 q = ([], q)"
| "drain_with pop (Suc n) q =
     (case pop q of
        (None, q') \<Rightarrow> ([], q')
      | (Some t, q') \<Rightarrow> (case drain_with pop n q' of (ts, q'') \<Rightarrow> (t # ts, q'')))"

definition pq_drain ::
  "('o, 'cb) priority_queue \<Rightarrow> ('o, 'cb) task list \<times> ('o, 'cb) priority_queue" where
  "pq_drain q = drain_with pq_Pop (pq_Len q) q"

definition pq_push_all ::
  "(('o, 'cb) task \<times> int) list \<Rightarrow> ('o, 'cb) priority_queue \<Rightarrow> ('o, 'cb) priority_queue" where
  "pq_push_all ps q = foldl (\<lambda>q (t, clock). pq_Push t clock q) q ps"

section \<open>The contract of a priority queue\<close>

text \<open>
  A priority queue is a bag of keys from which \<open>pop\<close> takes a key that no other comes
  before.  Draining such a queue lists the bag in order.
\<close>

locale bag_queue = weak_order before for before :: "'k \<Rightarrow> 'k \<Rightarrow> bool" +
  fixes pop :: "'q \<Rightarrow> 'x option \<times> 'q"
    and invar :: "'q \<Rightarrow> bool"
    and bag :: "'q \<Rightarrow> 'k multiset"
    and elem :: "'k \<Rightarrow> 'x"
  assumes pop_empty: "invar q \<Longrightarrow> bag q = {#} \<Longrightarrow> pop q = (None, q)"
    and pop_first: "invar q \<Longrightarrow> bag q \<noteq> {#} \<Longrightarrow>
      (\<exists>k q'. pop q = (Some (elem k), q') \<and> bag q = add_mset k (bag q') \<and>
        (\<forall>k' \<in># bag q. \<not> before k' k) \<and> invar q')"
begin

lemma drain_correct:
  "invar q \<Longrightarrow> size (bag q) \<le> n \<Longrightarrow>
    \<exists>ks q'. drain_with pop n q = (map elem ks, q') \<and> mset ks = bag q \<and> bag q' = {#} \<and> invar q' \<and>
      sorted_wrt (\<lambda>a b. \<not> before b a) ks"
proof (induction n arbitrary: q)
  case 0
  then show ?case by (intro exI [of _ "[]"]) simp
next
  case (Suc n)
  show ?case
  proof (cases "bag q = {#}")
    case True
    then show ?thesis
      using pop_empty Suc.prems by (intro exI [of _ "[]"]) simp
  next
    case False
    with Suc.prems pop_first obtain k q1 where pop: "pop q = (Some (elem k), q1)"
      and bag: "bag q = add_mset k (bag q1)" and least: "\<forall>k' \<in># bag q. \<not> before k' k"
      and inv: "invar q1" by blast
    from Suc.prems bag have "size (bag q1) \<le> n" by simp
    with Suc.IH [OF inv] obtain ks q' where rest: "drain_with pop n q1 = (map elem ks, q')"
      "mset ks = bag q1" "bag q' = {#}" "invar q'" "sorted_wrt (\<lambda>a b. \<not> before b a) ks" by blast
    have "\<forall>k' \<in> set ks. \<not> before k' k"
      using least bag rest(2) by (metis insert_iff set_mset_add_mset_insert set_mset_mset)
    with rest pop bag show ?thesis
      by (intro exI [of _ "k # ks"] exI [of _ q']) simp
  qed
qed

end

text \<open>Two lists that are in order and hold the same keys are equal, when the order is total on them.\<close>

lemma in_order_unique:
  assumes "mset xs = mset ys" and "sorted_wrt (\<lambda>a b. \<not> before b a) xs"
    and "sorted_wrt (\<lambda>a b. \<not> before b a) ys"
    and "\<And>a b. a \<in> set xs \<Longrightarrow> b \<in> set xs \<Longrightarrow> a \<noteq> b \<Longrightarrow> before a b \<or> before b a"
  shows "xs = ys"
  using assms
proof (induction xs arbitrary: ys)
  case (Cons x xs)
  then obtain y zs where ys: "ys = y # zs" by (cases ys) auto
  have sets: "set (x # xs) = set ys" using Cons.prems(1) by (metis set_mset_mset)
  have "x = y"
  proof (rule ccontr)
    assume ne: "x \<noteq> y"
    then have "x \<in> set zs" "y \<in> set xs" using sets ys by auto
    then show False
      using Cons.prems(2,3) Cons.prems(4) [of x y] ne sets ys by auto
  qed
  then show ?case using Cons.IH [of zs] Cons.prems ys by simp
qed simp

section \<open>The model keeps the contract\<close>

interpretation task_order: weak_order item_before
proof
  show "item_before a b \<Longrightarrow> \<not> item_before b a" for a b :: "('o, 'cb) item_key"
    by (cases a; cases b) auto
  show "\<not> item_before a b \<Longrightarrow> \<not> item_before b c \<Longrightarrow> \<not> item_before a c"
    for a b c :: "('o, 'cb) item_key"
    by (cases a; cases b; cases c) (auto split: if_splits)
qed

lemma length_heap_Swap [simp]: "length (heap_Swap h i j) = length h"
  by (simp add: heap_Swap_def Let_def)

lemma item_key_index [simp]: "item_key (x\<lparr>item_index := k\<rparr>) = item_key x"
  by (simp add: item_key_def)

lemma keys_heap_Swap:
  "i < length h \<Longrightarrow> j < length h \<Longrightarrow> map item_key (heap_Swap h i j) = list_swap (map item_key h) i j"
  by (rule nth_equalityI)
    (auto simp: heap_Swap_def Let_def list_swap_def nth_list_update)

interpretation task_heap: heap_interface item_before heap_Len heap_Less heap_Swap heap_Push heap_Pop
  "map item_key" item_key
  by unfold_locales
    (auto simp: heap_Len_def heap_Less_def heap_Push_def heap_Pop_def keys_heap_Swap item_key_def
      last_map map_butlast)

section \<open>Indices\<close>

lemma indices_ok_Swap:
  "indices_ok h \<Longrightarrow> i < length h \<Longrightarrow> j < length h \<Longrightarrow> indices_ok (heap_Swap h i j)"
  by (auto simp: indices_ok_def heap_Swap_def Let_def nth_list_update)

lemma indices_ok_up:
  "indices_ok h \<Longrightarrow> j < length h \<Longrightarrow> indices_ok (heap_up heap_Less heap_Swap h j)"
proof (induction j arbitrary: h rule: less_induct)
  case (less j)
  have p: "parent j < length h" using less.prems(2) parent_le [of j] by linarith
  show ?case
  proof (cases "parent j = j \<or> \<not> heap_Less h j (parent j)")
    case True
    then show ?thesis using less.prems by (subst heap_up_unfold) simp
  next
    case False
    then have "parent j < j" by (metis le_neq_implies_less parent_le)
    then show ?thesis
      using less.IH [of "parent j" "heap_Swap h (parent j) j"] less.prems p False
      by (subst heap_up_unfold) (simp add: indices_ok_Swap)
  qed
qed

lemma indices_ok_down:
  "indices_ok h \<Longrightarrow> n \<le> length h \<Longrightarrow>
    indices_ok (heap_down heap_Less heap_Swap h i n) \<and>
    length (heap_down heap_Less heap_Swap h i n) = length h"
proof (induction "n - i" arbitrary: i h rule: less_induct)
  case less
  let ?j = "if 2 * i + 2 < n \<and> heap_Less h (2 * i + 2) (2 * i + 1) then 2 * i + 2 else 2 * i + 1"
  show ?case
  proof (cases "n \<le> 2 * i + 1 \<or> \<not> heap_Less h ?j i")
    case True
    then show ?thesis using less.prems by (subst (1 2) heap_down_unfold) simp
  next
    case False
    then have j: "?j < n" "i < ?j" by auto
    then have "indices_ok (heap_Swap h i ?j)" using less.prems by (simp add: indices_ok_Swap)
    with less.hyps [of ?j "heap_Swap h i ?j"] j less.prems False show ?thesis
      by (subst (1 2) heap_down_unfold) (simp add: Let_def)
  qed
qed

section \<open>Operations\<close>

lemma pq_ok_New [simp]: "pq_ok NewPriorityQueue"
  by (simp add: pq_ok_def NewPriorityQueue_def heap_init_def heap_Len_def heap_on_def indices_ok_def)

lemma pq_bag_New [simp]: "pq_bag NewPriorityQueue = {#}"
  by (simp add: pq_bag_def NewPriorityQueue_def heap_init_def heap_Len_def)

lemma pq_queue_Push:
  "pq_queue (pq_Push t clock q) = heap_push heap_Len heap_Less heap_Swap heap_Push (pq_queue q)
    \<lparr>item_task = t, item_priority = t_priority t, item_timestamp = clock, item_index = pq_count q\<rparr>"
  by (simp add: pq_Push_def Let_def)

lemma pq_bag_Push: "pq_bag (pq_Push t clock q) = add_mset (t_priority t, clock, t) (pq_bag q)"
  unfolding pq_bag_def pq_Push_def Let_def
  by (simp add: task_heap.push_mset item_key_def del: mset_map)

lemma pq_ok_Push: "pq_ok q \<Longrightarrow> pq_ok (pq_Push t clock q)"
proof -
  assume ok: "pq_ok q"
  have "indices_ok (heap_Push (pq_queue q) x)" for x
    using ok by (auto simp: pq_ok_def indices_ok_def heap_Push_def nth_append less_Suc_eq)
  then have "indices_ok (heap_up heap_Less heap_Swap (heap_Push (pq_queue q) x)
      (length (pq_queue q)))" for x
    by (rule indices_ok_up) (simp add: heap_Push_def)
  from this [of "\<lparr>item_task = t, item_priority = t_priority t, item_timestamp = clock,
      item_index = pq_count q\<rparr>"]
  have "indices_ok (pq_queue (pq_Push t clock q))"
    unfolding pq_Push_def heap_push_def Let_def heap_Len_def by (simp add: heap_Push_def)
  moreover have "heap_ordered item_before (map item_key (pq_queue (pq_Push t clock q)))"
    using task_heap.push_ordered [OF conjunct1 [OF ok [unfolded pq_ok_def]]]
    unfolding pq_queue_Push .
  ultimately show ?thesis unfolding pq_ok_def by blast
qed

lemma size_pq_bag: "size (pq_bag q) = pq_Len q"
  by (simp add: pq_bag_def pq_Len_def heap_Len_def)

lemma pq_Pop_empty: "pq_Len q = 0 \<Longrightarrow> pq_Pop q = (None, q)"
  by (simp add: pq_Pop_def pq_Len_def)

lemma indices_ok_pop:
  assumes "indices_ok h" "h \<noteq> []" "heap_pop heap_Len heap_Less heap_Swap heap_Pop h = (x, h')"
  shows "indices_ok h'"
proof -
  let ?n = "length h - 1"
  let ?g = "heap_down heap_Less heap_Swap (heap_Swap h 0 ?n) 0 ?n"
  have "indices_ok ?g"
    using assms(1,2) indices_ok_down [of "heap_Swap h 0 ?n" ?n 0] by (simp add: indices_ok_Swap)
  moreover have "h' = butlast ?g"
    using assms(3) by (simp add: heap_pop_def heap_Pop_def heap_Len_def Let_def)
  ultimately show ?thesis by (simp add: indices_ok_def nth_butlast)
qed

lemma pq_Pop_first:
  assumes ok: "pq_ok q" and ne: "pq_Len q \<noteq> 0"
  obtains k q' where "pq_Pop q = (Some (snd (snd k)), q')" "pq_bag q = add_mset k (pq_bag q')"
    "\<forall>k' \<in># pq_bag q. \<not> item_before k' k" "pq_ok q'" "pq_Peek q = Some (snd (snd k))"
    "pq_count q' = pq_count q"
proof -
  let ?h = "pq_queue q"
  obtain x h' where pop: "heap_pop heap_Len heap_Less heap_Swap heap_Pop ?h = (x, h')"
    by (cases "heap_pop heap_Len heap_Less heap_Swap heap_Pop ?h")
  have h: "?h \<noteq> []" "map item_key ?h \<noteq> []" using ne by (auto simp: pq_Len_def heap_Len_def)
  have ord: "heap_ordered item_before (map item_key ?h)" using ok by (simp add: pq_ok_def)
  note facts = task_heap.pop_correct [OF ord h(2) pop]
  let ?q = "q\<lparr>pq_queue := h'\<rparr>"
  show thesis
  proof (rule that [of "item_key x" ?q])
    show "pq_Pop q = (Some (snd (snd (item_key x))), ?q)"
      using h pop by (simp add: pq_Pop_def heap_Len_def item_key_def)
    show "pq_bag q = add_mset (item_key x) (pq_bag ?q)"
      using facts(3) by (simp add: pq_bag_def)
    show "\<forall>k' \<in># pq_bag q. \<not> item_before k' (item_key x)"
      using facts(4) by (simp add: pq_bag_def)
    show "pq_ok ?q"
      using facts(2) indices_ok_pop [OF _ h(1) pop] ok by (simp add: pq_ok_def)
    show "pq_Peek q = Some (snd (snd (item_key x)))"
      using facts(1) h by (simp add: pq_Peek_def heap_Len_def hd_map item_key_def hd_conv_nth)
  qed simp
qed

interpretation task_queue: bag_queue item_before pq_Pop pq_ok pq_bag "\<lambda>k. snd (snd k)"
proof unfold_locales
  show "pq_Pop q = (None, q)" if "pq_bag q = {#}" for q :: "('o, 'cb) priority_queue"
    using that size_pq_bag [of q] by (simp add: pq_Pop_empty)
  show "\<exists>k q'. pq_Pop q = (Some (snd (snd k)), q') \<and> pq_bag q = add_mset k (pq_bag q') \<and>
      (\<forall>k' \<in># pq_bag q. \<not> item_before k' k) \<and> pq_ok q'"
    if "pq_ok q" "pq_bag q \<noteq> {#}" for q :: "('o, 'cb) priority_queue"
    using that size_pq_bag [of q] pq_Pop_first [OF that(1)] by (metis size_eq_0_iff_empty)
qed

section \<open>Stability\<close>

lemma pq_ok_push_all: "pq_ok q \<Longrightarrow> pq_ok (pq_push_all ps q)"
  unfolding pq_push_all_def by (induction ps arbitrary: q) (auto intro: pq_ok_Push)

definition push_key :: "('o, 'cb) task \<times> int \<Rightarrow> ('o, 'cb) item_key" where
  "push_key p = (t_priority (fst p), snd p, fst p)"

lemma pq_bag_push_all: "pq_bag (pq_push_all ps q) = pq_bag q + mset (map push_key ps)"
  unfolding pq_push_all_def
  by (induction ps arbitrary: q) (auto simp: pq_bag_Push push_key_def)

text \<open>Sorting keys stably by falling priority puts them in queue order, if the clock rose.\<close>

lemma insort_key_in_order:
  assumes "sorted_wrt (\<lambda>a b. \<not> item_before b a) ks"
    and "\<forall>k \<in> set ks. fst (snd x) < fst (snd k)"
  shows "sorted_wrt (\<lambda>a b. \<not> item_before b a) (insort_key (\<lambda>k. - fst k) x ks)"
  using assms
proof (induction ks)
  case (Cons k ks)
  show ?case
  proof (cases "- fst x \<le> - fst k")
    case True
    have "\<not> item_before k' x" if "k' \<in> set (k # ks)" for k'
    proof -
      have "\<not> item_before k' k" using that Cons.prems(1) by auto
      moreover have "\<not> item_before k x"
        using True Cons.prems(2) by (cases k; cases x) auto
      ultimately show ?thesis using task_order.negtrans by blast
    qed
    with True Cons.prems show ?thesis by simp
  next
    case False
    then have "\<not> item_before x k" by (cases k; cases x) auto
    with False Cons show ?thesis by (auto simp: set_insort_key)
  qed
qed simp

lemma sort_key_in_order:
  "sorted_wrt (<) (map (\<lambda>k. fst (snd k)) ks) \<Longrightarrow>
    sorted_wrt (\<lambda>a b. \<not> item_before b a) (sort_key (\<lambda>k. - fst k) ks)"
proof (induction ks)
  case (Cons k ks)
  then show ?case
    using insort_key_in_order [of "sort_key (\<lambda>k. - fst k) ks" k] by simp
qed simp

lemma map_insort_key: "map g (insort_key (\<lambda>y. f (g y)) x xs) = insort_key f (g x) (map g xs)"
  by (induction xs) auto

lemma map_sort_key: "map g (sort_key (\<lambda>y. f (g y)) xs) = sort_key f (map g xs)"
  by (induction xs) (simp_all add: map_insort_key)

lemma sort_key_push_keys:
  "map (\<lambda>k. snd (snd k)) (sort_key (\<lambda>k. - fst k) (map push_key ps))
    = sort_key (\<lambda>t. - t_priority t) (map fst ps)"
proof -
  have "sort_key (\<lambda>k. - fst k) (map push_key ps)
      = map push_key (sort_key (\<lambda>p. - t_priority (fst p)) ps)"
    using map_sort_key [of push_key "\<lambda>k. - fst k" ps] by (simp add: push_key_def)
  then show ?thesis
    using map_sort_key [of fst "\<lambda>t. - t_priority t" ps] by (simp add: push_key_def comp_def)
qed

lemma pq_drain_pushed:
  obtains ks q' where
    "pq_drain (pq_push_all ps NewPriorityQueue) = (map (\<lambda>k. snd (snd k)) ks, q')"
    "mset ks = mset (map push_key ps)" "pq_Len q' = 0"
    "sorted_wrt (\<lambda>a b. \<not> item_before b a) ks"
proof -
  let ?q = "pq_push_all ps NewPriorityQueue"
  have ok: "pq_ok ?q" by (simp add: pq_ok_push_all)
  have "size (pq_bag ?q) \<le> pq_Len ?q" by (simp add: size_pq_bag)
  from task_queue.drain_correct [OF ok this] obtain ks q' where
    "pq_drain ?q = (map (\<lambda>k. snd (snd k)) ks, q')" "mset ks = pq_bag ?q" "pq_bag q' = {#}"
    "sorted_wrt (\<lambda>a b. \<not> item_before b a) ks"
    unfolding pq_drain_def by blast
  then show thesis
    using that size_pq_bag [of q'] by (simp add: pq_bag_push_all)
qed

text \<open>C4: Draining a queue whose clock readings rose from push to push gives the pushed tasks in
  falling priority, tasks of equal priority in the order in which they were pushed (a stable sort by
  priority), and leaves the queue empty.\<close>

theorem pq_drain_stable_sort:
  assumes "sorted_wrt (<) (map snd ps)"
  shows "fst (pq_drain (pq_push_all ps NewPriorityQueue)) = sort_key (\<lambda>t. - t_priority t) (map fst ps)
    \<and> pq_Len (snd (pq_drain (pq_push_all ps NewPriorityQueue))) = 0"
proof -
  let ?ks = "map push_key ps"
  obtain ks q' where drain: "pq_drain (pq_push_all ps NewPriorityQueue) = (map (\<lambda>k. snd (snd k)) ks, q')"
    "mset ks = mset ?ks" "pq_Len q' = 0" and ord: "sorted_wrt (\<lambda>a b. \<not> item_before b a) ks"
    by (rule pq_drain_pushed)
  have rising: "sorted_wrt (<) (map (\<lambda>k. fst (snd k)) ?ks)"
    using assms by (simp add: push_key_def comp_def)
  have "ks = sort_key (\<lambda>k. - fst k) ?ks"
  proof (rule in_order_unique [OF _ ord sort_key_in_order [OF rising]])
    show "mset ks = mset (sort_key (\<lambda>k. - fst k) ?ks)" using drain(2) by simp
    fix a b assume "a \<in> set ks" "b \<in> set ks" "a \<noteq> b"
    then have "a \<in> set ?ks" "b \<in> set ?ks" using drain(2) by (metis set_mset_mset)+
    then have "a = b \<or> fst (snd a) \<noteq> fst (snd b)"
      using rising unfolding strict_sorted_iff by (metis distinct_map inj_onD)
    with \<open>a \<noteq> b\<close> show "item_before a b \<or> item_before b a" by (cases a; cases b) auto
  qed
  then show ?thesis using drain by (simp add: sort_key_push_keys)
qed

definition sample_task :: "string \<Rightarrow> goint \<Rightarrow> (nat, unit) task" where
  "sample_task tid p = simple_iface (WithPriority p (NewSimpleTask tid ''sample'' None))"

lemma t_priority_sample [simp]: "t_priority (sample_task tid p) = p"
  by (simp add: sample_task_def simple_iface_def WithPriority_def)

lemma t_id_sample [simp]: "t_id (sample_task tid p) = tid"
  by (simp add: sample_task_def simple_iface_def WithPriority_def NewSimpleTask_def)

theorem pq_drain_stable_sort_witness:
  "fst (pq_drain (pq_push_all [(sample_task ''a'' 1, 10), (sample_task ''b'' 5, 11),
      (sample_task ''c'' 1, 12)] NewPriorityQueue))
    = [sample_task ''b'' 5, sample_task ''a'' 1, sample_task ''c'' 1]"
  using pq_drain_stable_sort [of "[(sample_task ''a'' 1, 10), (sample_task ''b'' 5, 11),
      (sample_task ''c'' 1, 12)]"] by simp

text \<open>Whatever the clock does, draining returns every pushed task exactly once, and never a
  task before one of strictly higher priority.\<close>

lemma pq_drain_priority_order:
  "mset (fst (pq_drain (pq_push_all ps NewPriorityQueue))) = mset (map fst ps) \<and>
   sorted_wrt (\<lambda>a b. t_priority b \<le> t_priority a) (fst (pq_drain (pq_push_all ps NewPriorityQueue)))"
proof -
  obtain ks q' where drain: "pq_drain (pq_push_all ps NewPriorityQueue) = (map (\<lambda>k. snd (snd k)) ks, q')"
    "mset ks = mset (map push_key ps)" and ord: "sorted_wrt (\<lambda>a b. \<not> item_before b a) ks"
    by (rule pq_drain_pushed)
  have prio: "fst k = t_priority (snd (snd k))" if "k \<in> set ks" for k
    using that drain(2) by (auto simp: push_key_def simp flip: set_mset_mset)
  have "sorted_wrt (\<lambda>a b. t_priority (snd (snd b)) \<le> t_priority (snd (snd a))) ks"
    by (rule sorted_wrt_mono_rel [OF _ ord]) (use prio in \<open>force split: if_splits\<close>)
  moreover have "mset (map (\<lambda>k. snd (snd k)) ks) = mset (map fst ps)"
    using drain(2) by (simp add: push_key_def image_mset.compositionality comp_def)
  ultimately show ?thesis using drain(1) by (simp add: sorted_wrt_map)
qed

text \<open>\<open>Pop\<close> on a well-formed non-empty queue returns the task that \<open>Peek\<close>
  shows, a task of highest priority and among those of the earliest timestamp; it removes exactly
  that entry, and heap order and stored indices stay correct.\<close>

lemma pq_Pop_correct:
  assumes "pq_ok q" and "pq_Len q \<noteq> 0"
  shows "\<exists>p i t q'. pq_Pop q = (Some t, q') \<and> pq_Peek q = Some t \<and>
    pq_bag q = add_mset (p, i, t) (pq_bag q') \<and> pq_ok q' \<and> pq_Len q = Suc (pq_Len q') \<and>
    (\<forall>(p', i', t') \<in># pq_bag q. p' \<le> p \<and> (p' = p \<longrightarrow> i \<le> i'))"
proof -
  obtain k q' where pop: "pq_Pop q = (Some (snd (snd k)), q')" "pq_bag q = add_mset k (pq_bag q')"
    "\<forall>k' \<in># pq_bag q. \<not> item_before k' k" "pq_ok q'" "pq_Peek q = Some (snd (snd k))"
    by (rule pq_Pop_first [OF assms])
  obtain p i t where k: "k = (p, i, t)" by (cases k)
  have "\<forall>(p', i', t') \<in># pq_bag q. p' \<le> p \<and> (p' = p \<longrightarrow> i \<le> i')"
    using pop(3) k by (fastforce split: if_splits)
  moreover have "pq_Len q = Suc (pq_Len q')" using pop(2) by (metis size_add_mset size_pq_bag)
  ultimately show ?thesis using pop k by auto
qed

text \<open>The documented first-in-first-out order of equal priorities depends on the clock: three
  tasks pushed within one clock tick come out as first, third, second.\<close>

lemma pq_drain_same_tick:
  "map t_id (fst (pq_drain (pq_push_all [(sample_task ''a'' 0, 7), (sample_task ''b'' 0, 7),
      (sample_task ''c'' 0, 7)] NewPriorityQueue))) = [''a'', ''c'', ''b'']"
  by (simp add: pq_push_all_def pq_Push_def NewPriorityQueue_def heap_init_def heap_push_def
      heap_pop_def heap_Push_def heap_Pop_def heap_Len_def heap_Less_def heap_Swap_def
      heap_up.simps heap_down.simps pq_drain_def pq_Len_def pq_Pop_def Let_def numeral_nat)

end
