(* ===== verification/Channel.thy ===== *)
theory Channel
  imports Runtime
begin

text \<open>
  Buffered channels with the operations the code performs on them: \<open>make\<close>, the
  non-blocking send of a \<open>select\<close> with a \<open>default\<close> branch, the receive, and \<open>len\<close>.
  The interface \<open>fifo_channel\<close> says what a bounded first-in-first-out channel promises;
  the loops that send many values until the channel is full are proved correct against it.
\<close>

section \<open>The model\<close>

record 'a chan =
  chan_buf :: "'a list"
  chan_cap :: nat

text \<open>\<open>make(chan T, n)\<close> panics on a negative size.\<close>

definition make_chan :: "goint \<Rightarrow> panic_val + 'a chan" where
  "make_chan n =
     (if n < 0 then Inl (PanicError (ErrorNew ''makechan: size out of range''))
      else Inr \<lparr>chan_buf = [], chan_cap = nat n\<rparr>)"

definition try_send :: "'a chan \<Rightarrow> 'a \<Rightarrow> 'a chan \<times> bool" where
  "try_send c x =
     (if length (chan_buf c) < chan_cap c then (c\<lparr>chan_buf := chan_buf c @ [x]\<rparr>, True)
      else (c, False))"

fun try_recv_buf :: "'a list \<Rightarrow> ('a \<times> 'a list) option" where
  "try_recv_buf [] = None"
| "try_recv_buf (x # xs) = Some (x, xs)"

definition try_recv :: "'a chan \<Rightarrow> ('a \<times> 'a chan) option" where
  "try_recv c = map_option (\<lambda>(x, xs). (x, c\<lparr>chan_buf := xs\<rparr>)) (try_recv_buf (chan_buf c))"

text \<open>A loop of non-blocking sends that stops at the first failure.\<close>

fun send_each :: "('c \<Rightarrow> 'a \<Rightarrow> 'c \<times> bool) \<Rightarrow> 'c \<Rightarrow> 'a list \<Rightarrow> 'c" where
  "send_each send c [] = c"
| "send_each send c (x # xs) =
     (case send c x of (c', ok) \<Rightarrow> if ok then send_each send c' xs else c')"

section \<open>The interface\<close>

locale fifo_channel =
  fixes send :: "'c \<Rightarrow> 'a \<Rightarrow> 'c \<times> bool"
    and recv :: "'c \<Rightarrow> ('a \<times> 'c) option"
    and items :: "'c \<Rightarrow> 'a list"
    and capacity :: "'c \<Rightarrow> nat"
  assumes send_room: "length (items c) < capacity c \<Longrightarrow>
      snd (send c x) \<and> items (fst (send c x)) = items c @ [x]"
    and send_full: "\<not> length (items c) < capacity c \<Longrightarrow> send c x = (c, False)"
    and send_capacity: "capacity (fst (send c x)) = capacity c"
    and recv_empty: "items c = [] \<Longrightarrow> recv c = None"
    and recv_first: "items c = x # xs \<Longrightarrow>
      (\<exists>c'. recv c = Some (x, c') \<and> items c' = xs \<and> capacity c' = capacity c)"
begin

lemma send_items:
  "items (fst (send c x)) = items c @ (if length (items c) < capacity c then [x] else [])"
  using send_room send_full by (cases "length (items c) < capacity c") auto

lemma send_ok_iff: "snd (send c x) \<longleftrightarrow> length (items c) < capacity c"
  using send_room send_full by (cases "length (items c) < capacity c") auto

lemma send_bounded:
  "length (items c) \<le> capacity c \<Longrightarrow> length (items (fst (send c x))) \<le> capacity (fst (send c x))"
  by (simp add: send_items send_capacity)

lemma send_each_capacity: "capacity (send_each send c xs) = capacity c"
proof (induction xs arbitrary: c)
  case (Cons x xs)
  then show ?case using send_capacity [of c x] by (auto split: prod.splits)
qed simp

text \<open>The loop delivers exactly the prefix that fits, in order.\<close>

lemma send_each_items:
  "items (send_each send c xs) = items c @ take (capacity c - length (items c)) xs"
proof (induction xs arbitrary: c)
  case (Cons x xs)
  show ?case
  proof (cases "length (items c) < capacity c")
    case True
    then obtain c' where c': "send c x = (c', True)" "items c' = items c @ [x]"
      using send_room [of c x] by (cases "send c x") auto
    moreover have "capacity c' = capacity c" using send_capacity [of c x] c' by simp
    ultimately show ?thesis
      using Cons [of c'] True by (simp add: take_Cons' Suc_diff_Suc)
  next
    case False
    then show ?thesis by (simp add: send_full)
  qed
qed simp

text \<open>Trying to send every element, whether or not earlier ones fitted, delivers the same prefix.\<close>

lemma send_all_capacity: "capacity (foldl (\<lambda>c x. fst (send c x)) c xs) = capacity c"
  by (induction xs arbitrary: c) (simp_all add: send_capacity)

lemma send_all_items:
  "items (foldl (\<lambda>c x. fst (send c x)) c xs) = items c @ take (capacity c - length (items c)) xs"
proof (induction xs arbitrary: c)
  case (Cons x xs)
  show ?case
  proof (cases "length (items c) < capacity c")
    case True
    then have "items (fst (send c x)) = items c @ [x]" using send_room by blast
    with True show ?thesis
      using Cons [of "fst (send c x)"] by (simp add: send_capacity take_Cons' Suc_diff_Suc)
  next
    case False
    then show ?thesis using Cons [of c] by (simp add: send_full)
  qed
qed simp

lemma send_each_bounded:
  "length (items c) \<le> capacity c \<Longrightarrow>
    length (items (send_each send c xs)) \<le> capacity (send_each send c xs)"
  by (simp add: send_each_items send_each_capacity)

lemma recv_cases:
  obtains "items c = []" "recv c = None"
  | x c' where "recv c = Some (x, c')" "items c = x # items c'" "capacity c' = capacity c"
  using recv_empty recv_first by (cases "items c") metis+

end

interpretation chan_fifo: fifo_channel try_send try_recv chan_buf chan_cap
  by unfold_locales (auto simp: try_send_def try_recv_def)

lemmas chan_simps =
  chan_fifo.send_items chan_fifo.send_ok_iff chan_fifo.send_capacity
  chan_fifo.send_each_items chan_fifo.send_each_capacity
  chan_fifo.send_all_items chan_fifo.send_all_capacity

lemma make_chan_Inr: "make_chan n = Inr c \<longleftrightarrow> 0 \<le> n \<and> c = \<lparr>chan_buf = [], chan_cap = nat n\<rparr>"
  by (auto simp: make_chan_def)

lemma try_recv_Some: "try_recv q = Some (x, q') \<Longrightarrow> chan_buf q = x # chan_buf q'"
  by (cases "chan_buf q") (auto simp: try_recv_def)

end
