(* ===== verification/Worker.thy ===== *)
theory Worker
  imports Channel Task
begin

text \<open>
  Workers (\<open>pkg/worker/worker.go\<close>): the result of a task, the statistics of a worker,
  \<open>BaseWorker.ExecuteTask\<close> with its retry loop and backoff, the dropping send on the
  result channel, and the processing loop of \<open>SimpleWorker\<close> as a step relation.

  The state that an execution works on is the worker, its result channel (\<open>None\<close> is a nil
  channel, on which no send ever succeeds) and the world.  The loop counter is an unbounded integer:
  it differs from Go's only where a task has failed \<open>2^63\<close> times.
\<close>

section \<open>Data\<close>

record ('o, 'cb) result =
  r_TaskID :: string
  r_Output :: "'o option"
  r_Err :: "go_error option"
  r_Duration :: duration
  r_Worker :: goint
  r_Attempt :: goint
  r_Task :: "('o, 'cb) task option"

record worker_stats =
  TasksProcessed :: int
  TasksFailed :: int
  TotalDuration :: duration
  IdleTime :: duration
  LastTaskTime :: instant

record base_worker =
  w_id :: goint
  w_stats :: worker_stats
  w_available :: bool
  w_maxRetries :: goint

definition NewBaseWorker :: "goint \<Rightarrow> goint \<Rightarrow> instant \<Rightarrow> base_worker" where
  "NewBaseWorker wid maxRetries i =
     \<lparr>w_id = wid,
      w_stats = \<lparr>TasksProcessed = 0, TasksFailed = 0, TotalDuration = 0, IdleTime = 0,
        LastTaskTime = i\<rparr>,
      w_available = True, w_maxRetries = maxRetries\<rparr>"

definition SetAvailable :: "bool \<Rightarrow> base_worker \<Rightarrow> base_worker" where
  "SetAvailable a w = w\<lparr>w_available := a\<rparr>"

definition Available :: "base_worker \<Rightarrow> bool" where
  "Available w = w_available w"

definition worker_ID :: "base_worker \<Rightarrow> goint" where
  "worker_ID w = w_id w"

definition Stats :: "base_worker \<Rightarrow> worker_stats" where
  "Stats w = w_stats w"

record ('o, 'cb) exec_state =
  x_worker :: base_worker
  x_results :: "('o, 'cb) result chan option"
  x_world :: world

section \<open>Sending results\<close>

text \<open>A \<open>select\<close> with an empty \<open>default\<close>: the result is dropped when it cannot be sent.\<close>

definition sendResult ::
  "('o, 'cb) result \<Rightarrow> ('o, 'cb) exec_state \<Rightarrow> ('o, 'cb) exec_state" where
  "sendResult r s =
     s\<lparr>x_results := (case x_results s of None \<Rightarrow> None | Some c \<Rightarrow> Some (fst (try_send c r)))\<rparr>"

section \<open>Retries\<close>

definition backoff_duration :: "goint \<Rightarrow> duration" where
  "backoff_duration attempt =
     (let shift = (if attempt > 20 then 20 else attempt);
          d = push_bit (nat shift) 1 * 10 * millisecond
      in if d > 1 * second then 1 * second else d)"

definition waitForRetry ::
  "ctx \<Rightarrow> goint \<Rightarrow> instant \<Rightarrow> ('o, 'cb) result \<Rightarrow> ('o, 'cb) exec_state \<Rightarrow>
    bool \<times> ('o, 'cb) result \<times> ('o, 'cb) exec_state" where
  "waitForRetry c attempt start r s =
     (let w = x_world s
      in case select_done c (now w + backoff_duration attempt) w of
           (Some e, w') \<Rightarrow>
             let r' = r\<lparr>r_Err := Some e, r_Duration := time_sub (now w') start\<rparr>
             in (False, r', sendResult r' (s\<lparr>x_world := w'\<rparr>))
         | (None, w') \<Rightarrow> (True, r, s\<lparr>x_world := w'\<rparr>))"

definition updateTaskStats ::
  "('o, 'cb) result \<Rightarrow> ('o, 'cb) exec_state \<Rightarrow> ('o, 'cb) exec_state" where
  "updateTaskStats r s =
     (let st = w_stats (x_worker s);
          st1 = (if r_Err r \<noteq> None then st\<lparr>TasksFailed := wrap64 (TasksFailed st + 1)\<rparr>
                 else st\<lparr>TasksProcessed := wrap64 (TasksProcessed st + 1)\<rparr>);
          st2 = st1\<lparr>TotalDuration := wrap64 (TotalDuration st1 + r_Duration r),
                    LastTaskTime := now (x_world s)\<rparr>
      in s\<lparr>x_worker := (x_worker s)\<lparr>w_stats := st2\<rparr>\<rparr>)"

text \<open>How the loop of \<open>executeWithRetries\<close> is left: normally, by a \<open>return\<close>, or by a panic
  that nothing on the worker's goroutine recovers.\<close>

datatype loop_end = LoopDone | LoopReturned | LoopPanicked panic_val

function retry_loop ::
  "ctx \<Rightarrow> ('o, 'cb) task \<Rightarrow> goint \<Rightarrow> instant \<Rightarrow> goint \<Rightarrow> ('o, 'cb) result \<Rightarrow>
    ('o, 'cb) exec_state \<Rightarrow> loop_end \<times> ('o, 'cb) result \<times> ('o, 'cb) exec_state" where
  "retry_loop c t maxRetries start attempt r s =
     (if maxRetries < attempt then (LoopDone, r, s)
      else
        let r1 = r\<lparr>r_Attempt := wrap64 (attempt + 1)\<rparr>
        in case ctx_err c (now (x_world s)) of
             Some e \<Rightarrow>
               let r2 = r1\<lparr>r_Err := Some e, r_Duration := time_sub (now (x_world s)) start\<rparr>
               in (LoopReturned, r2, sendResult r2 s)
           | None \<Rightarrow>
               (case t_execute t c (x_world s) of
                  (Panic v, w') \<Rightarrow> (LoopPanicked v, r1, s\<lparr>x_world := w'\<rparr>)
                | (Crash v, w') \<Rightarrow> (LoopPanicked v, r1, s\<lparr>x_world := w'\<rparr>)
                | (Return output None, w') \<Rightarrow>
                    (LoopDone, r1\<lparr>r_Output := output, r_Duration := time_sub (now w') start\<rparr>,
                     s\<lparr>x_world := w'\<rparr>)
                | (Return output (Some e), w') \<Rightarrow>
                    if maxRetries \<le> attempt then
                      retry_loop c t maxRetries start (attempt + 1)
                        (r1\<lparr>r_Err := Some (NewTaskError (t_id t) (wrap64 (attempt + 1)) (error_text e) (Some e)),
                            r_Duration := time_sub (now w') start\<rparr>)
                        (s\<lparr>x_world := w'\<rparr>)
                    else
                      (case waitForRetry c attempt start r1 (s\<lparr>x_world := w'\<rparr>) of
                         (False, r2, s2) \<Rightarrow> (LoopReturned, r2, s2)
                       | (True, r2, s2) \<Rightarrow> retry_loop c t maxRetries start (attempt + 1) r2 s2)))"
  by pat_completeness auto
termination
  by (relation "measure (\<lambda>(c, t, maxRetries, start, attempt, r, s). nat (maxRetries + 1 - attempt))") auto

declare retry_loop.simps [simp del]

definition effective_retries :: "('o, 'cb) task \<Rightarrow> base_worker \<Rightarrow> goint" where
  "effective_retries t w = (if t_max_retries t \<le> 0 then w_maxRetries w else t_max_retries t)"

text \<open>The first component is the panic that took the process down, if any.\<close>

definition executeWithRetries ::
  "ctx \<Rightarrow> ('o, 'cb) task \<Rightarrow> ('o, 'cb) result \<Rightarrow> ('o, 'cb) exec_state \<Rightarrow>
    panic_val option \<times> ('o, 'cb) exec_state" where
  "executeWithRetries c t r s =
     (case retry_loop c t (effective_retries t (x_worker s)) (now (x_world s)) 0 r s of
        (LoopDone, r', s') \<Rightarrow> (None, sendResult r' (updateTaskStats r' s'))
      | (LoopReturned, r', s') \<Rightarrow> (None, s')
      | (LoopPanicked v, r', s') \<Rightarrow> (Some v, s'))"

definition mark_idle :: "('o, 'cb) exec_state \<Rightarrow> ('o, 'cb) exec_state" where
  "mark_idle s =
     (let st = w_stats (x_worker s); i = now (x_world s)
      in s\<lparr>x_worker := (x_worker s)\<lparr>w_stats :=
            st\<lparr>IdleTime := wrap64 (IdleTime st + time_sub i (LastTaskTime st)), LastTaskTime := i\<rparr>\<rparr>\<rparr>)"

definition initial_result :: "('o, 'cb) task \<Rightarrow> base_worker \<Rightarrow> ('o, 'cb) result" where
  "initial_result t w =
     \<lparr>r_TaskID = t_id t, r_Output = None, r_Err = None, r_Duration = 0, r_Worker = w_id w,
      r_Attempt = 0, r_Task = Some t\<rparr>"

definition ExecuteTask ::
  "ctx \<Rightarrow> ('o, 'cb) task \<Rightarrow> ('o, 'cb) exec_state \<Rightarrow> panic_val option \<times> ('o, 'cb) exec_state" where
  "ExecuteTask c t s =
     (let s1 = mark_idle s; r = initial_result t (x_worker s1)
      in case t_validate t (now (x_world s1)) of
           Some e \<Rightarrow>
             (None, sendResult (r\<lparr>r_Err := Some (Errorf ''task validation failed: '' e)\<rparr>) s1)
         | None \<Rightarrow> executeWithRetries c t r s1)"

section \<open>Facts about the pieces\<close>

lemma sendResult_simps [simp]:
  "x_worker (sendResult r s) = x_worker s" "x_world (sendResult r s) = x_world s"
  "x_results (sendResult r s) = map_option (\<lambda>ch. fst (try_send ch r)) (x_results s)"
  by (simp_all add: sendResult_def split: option.splits)

lemma mark_idle_simps [simp]:
  "x_results (mark_idle s) = x_results s" "x_world (mark_idle s) = x_world s"
  "w_id (x_worker (mark_idle s)) = w_id (x_worker s)"
  "w_maxRetries (x_worker (mark_idle s)) = w_maxRetries (x_worker s)"
  "TasksProcessed (w_stats (x_worker (mark_idle s))) = TasksProcessed (w_stats (x_worker s))"
  "TasksFailed (w_stats (x_worker (mark_idle s))) = TasksFailed (w_stats (x_worker s))"
  by (simp_all add: mark_idle_def Let_def)

lemma updateTaskStats_simps [simp]:
  "w_id (x_worker (updateTaskStats r s)) = w_id (x_worker s)"
  "w_maxRetries (x_worker (updateTaskStats r s)) = w_maxRetries (x_worker s)"
  "x_results (updateTaskStats r s) = x_results s" "x_world (updateTaskStats r s) = x_world s"
  "TasksProcessed (w_stats (x_worker (updateTaskStats r s))) =
     (if r_Err r = None then wrap64 (TasksProcessed (w_stats (x_worker s)) + 1)
      else TasksProcessed (w_stats (x_worker s)))"
  "TasksFailed (w_stats (x_worker (updateTaskStats r s))) =
     (if r_Err r = None then TasksFailed (w_stats (x_worker s))
      else wrap64 (TasksFailed (w_stats (x_worker s)) + 1))"
  by (simp_all add: updateTaskStats_def Let_def)

lemma initial_result_simps [simp]:
  "r_TaskID (initial_result t w) = t_id t" "r_Worker (initial_result t w) = w_id w"
  "r_Task (initial_result t w) = Some t" "r_Err (initial_result t w) = None"
  "r_Attempt (initial_result t w) = 0" "r_Output (initial_result t w) = None"
  by (simp_all add: initial_result_def)

lemma backoff_small: "0 \<le> a \<Longrightarrow> a \<le> 6 \<Longrightarrow> backoff_duration a = 2 ^ nat a * 10 * millisecond"
proof -
  assume a: "0 \<le> a" "a \<le> 6"
  then have "nat a \<le> 6" by simp
  then have "(2::int) ^ nat a \<le> 2 ^ 6" by (rule power_increasing) simp
  with a show ?thesis by (simp add: backoff_duration_def Let_def push_bit_eq_mult)
qed

lemma backoff_large: "7 \<le> a \<Longrightarrow> backoff_duration a = second"
proof -
  assume a: "7 \<le> a"
  have "(2::int) ^ 7 \<le> 2 ^ nat (if a > 20 then 20 else a)"
    by (rule power_increasing) (use a in auto)
  with a show ?thesis by (simp add: backoff_duration_def Let_def push_bit_eq_mult)
qed

lemma backoff_bounds:
  assumes "0 \<le> a"
  shows "10 * millisecond \<le> backoff_duration a" and "backoff_duration a \<le> second"
proof -
  have "(1::int) \<le> 2 ^ nat a" by simp
  then show "10 * millisecond \<le> backoff_duration a"
    using assms backoff_small [of a] backoff_large [of a] by (cases "a \<le> 6") auto
  have "(2::int) ^ nat a \<le> 2 ^ 6" if "a \<le> 6"
    by (rule power_increasing) (use that assms in auto)
  then show "backoff_duration a \<le> second"
    using assms backoff_small [of a] backoff_large [of a] by (cases "a \<le> 6") auto
qed

lemma waitForRetry_True:
  assumes "waitForRetry c a start r s = (True, r2, s2)" and "0 \<le> a"
  shows "r2 = r" and "x_worker s2 = x_worker s" and "x_results s2 = x_results s"
    and "calls (x_world s2) = calls (x_world s)"
    and "now (x_world s2) = now (x_world s) + backoff_duration a"
  using assms backoff_bounds [of a]
  by (auto simp: waitForRetry_def Let_def split: prod.splits option.splits
      dest: calls_select_done select_done_None)

lemma waitForRetry_False:
  assumes "waitForRetry c a start r s = (False, r2, s2)"
  obtains err w' where "ctx_err c (now w') = Some err" "calls w' = calls (x_world s)"
    "r2 = r\<lparr>r_Err := Some err, r_Duration := time_sub (now w') start\<rparr>"
    "s2 = sendResult r2 (s\<lparr>x_world := w'\<rparr>)"
  using assms
  by (auto simp: waitForRetry_def Let_def split: prod.splits option.splits
      dest: calls_select_done select_done_Some)

section \<open>What the retry loop does\<close>

text \<open>
  The three facts below follow the loop.  Whatever happens, the result keeps its identity and the
  worker its statistics; a result is sent inside the loop exactly when the loop returns early, and
  then it carries the context's error; when the loop ends normally the result is a success or the
  error of the last attempt.
\<close>

definition loop_post ::
  "ctx \<Rightarrow> ('o, 'cb) task \<Rightarrow> goint \<Rightarrow> goint \<Rightarrow> ('o, 'cb) result \<Rightarrow> ('o, 'cb) exec_state \<Rightarrow>
    loop_end \<Rightarrow> ('o, 'cb) result \<Rightarrow> ('o, 'cb) exec_state \<Rightarrow> bool" where
  "loop_post c t n attempt r s e r' s' \<longleftrightarrow>
     r_TaskID r' = r_TaskID r \<and> r_Worker r' = r_Worker r \<and> r_Task r' = r_Task r \<and>
     x_worker s' = x_worker s \<and>
     x_results s' = (if e = LoopReturned then map_option (\<lambda>ch. fst (try_send ch r')) (x_results s)
                     else x_results s) \<and>
     (e = LoopReturned \<longrightarrow> r_Err r' \<noteq> None \<and> ctx_err c (now (x_world s')) = r_Err r') \<and>
     (attempt \<le> n \<longrightarrow> attempt < r_Attempt r' \<and> r_Attempt r' \<le> n + 1) \<and>
     (e = LoopDone \<and> attempt \<le> n \<longrightarrow> r_Err r' = r_Err r \<or>
        (\<exists>err. r_Err r' = Some (NewTaskError (t_id t) (n + 1) (error_text err) (Some err)) \<and>
           r_Attempt r' = n + 1)) \<and>
     (n < attempt \<longrightarrow> e = LoopDone \<and> r' = r \<and> s' = s)"

lemma retry_loop_done [simp]: "n < attempt \<Longrightarrow> retry_loop c t n start attempt r s = (LoopDone, r, s)"
  by (subst retry_loop.simps) simp

text \<open>One round of the loop: the six ways in which it goes on.\<close>

lemma retry_loop_round:
  assumes "attempt \<le> n" "0 \<le> attempt" "n < max_int64"
    and "retry_loop c t n start attempt r s = (e, r', s')"
  obtains
    (cancelled) err d where "ctx_err c (now (x_world s)) = Some err" "e = LoopReturned"
      "r' = r\<lparr>r_Attempt := attempt + 1, r_Err := Some err, r_Duration := d\<rparr>" "s' = sendResult r' s"
  | (panicked) v w' where "ctx_err c (now (x_world s)) = None" "e = LoopPanicked v"
      "r' = r\<lparr>r_Attempt := attempt + 1\<rparr>" "s' = s\<lparr>x_world := w'\<rparr>"
      "t_execute t c (x_world s) = (Panic v, w') \<or> t_execute t c (x_world s) = (Crash v, w')"
  | (success) ov w' d where "ctx_err c (now (x_world s)) = None"
      "t_execute t c (x_world s) = (Return ov None, w')" "e = LoopDone"
      "r' = r\<lparr>r_Attempt := attempt + 1, r_Output := ov, r_Duration := d\<rparr>" "s' = s\<lparr>x_world := w'\<rparr>"
  | (exhausted) ov err w' d where "ctx_err c (now (x_world s)) = None"
      "t_execute t c (x_world s) = (Return ov (Some err), w')" "attempt = n" "e = LoopDone"
      "r' = r\<lparr>r_Attempt := attempt + 1,
          r_Err := Some (NewTaskError (t_id t) (n + 1) (error_text err) (Some err)), r_Duration := d\<rparr>"
      "s' = s\<lparr>x_world := w'\<rparr>"
  | (interrupted) ov err w' err' w'' d where "ctx_err c (now (x_world s)) = None"
      "t_execute t c (x_world s) = (Return ov (Some err), w')" "attempt < n" "e = LoopReturned"
      "ctx_err c (now w'') = Some err'" "calls w'' = calls w'"
      "r' = r\<lparr>r_Attempt := attempt + 1, r_Err := Some err', r_Duration := d\<rparr>"
      "s' = sendResult r' (s\<lparr>x_world := w''\<rparr>)"
  | (again) ov err w' s2 where "ctx_err c (now (x_world s)) = None"
      "t_execute t c (x_world s) = (Return ov (Some err), w')" "attempt < n"
      "x_worker s2 = x_worker s" "x_results s2 = x_results s" "calls (x_world s2) = calls w'"
      "now (x_world s2) = now w' + backoff_duration attempt"
      "retry_loop c t n start (attempt + 1) (r\<lparr>r_Attempt := attempt + 1\<rparr>) s2 = (e, r', s')"
proof -
  let ?r1 = "r\<lparr>r_Attempt := attempt + 1\<rparr>"
  have wrap: "wrap64 (attempt + 1) = attempt + 1" using assms(1-3) by (simp add: wrap64_id)
  note eq = assms(4) [unfolded retry_loop.simps [of c t n start attempt r s]]
  obtain out w' where run: "t_execute t c (x_world s) = (out, w')"
    by (cases "t_execute t c (x_world s)")
  show thesis
  proof (cases "ctx_err c (now (x_world s))")
    case (Some err)
    with eq wrap assms(1) show thesis by (intro cancelled) (auto simp: Let_def)
  next
    case live: None
    show thesis
    proof (cases "\<exists>ov err. out = Return ov (Some err) \<and> attempt < n")
      case False
      with eq wrap assms(1) live run show thesis
        by (cases out; cases "\<exists>ov err. out = Return ov (Some err)")
          (auto simp: Let_def intro: panicked success exhausted split: option.splits)
    next
      case True
      then obtain ov err where out: "out = Return ov (Some err)" "attempt < n" by blast
      obtain go r2 s2 where wait: "waitForRetry c attempt start ?r1 (s\<lparr>x_world := w'\<rparr>) = (go, r2, s2)"
        by (metis surj_pair)
      show thesis
      proof (cases go)
        case True
        with wait have "waitForRetry c attempt start ?r1 (s\<lparr>x_world := w'\<rparr>) = (True, r2, s2)" by simp
        note waitForRetry_True [OF this assms(2)]
        with eq wrap assms(1) live run out wait True show thesis by (intro again) (auto simp: Let_def)
      next
        case False
        with wait have "waitForRetry c attempt start ?r1 (s\<lparr>x_world := w'\<rparr>) = (False, r2, s2)" by simp
        then show thesis
          by (rule waitForRetry_False)
            (use eq wrap assms(1) live run out wait False in \<open>auto simp: Let_def intro: interrupted\<close>)
      qed
    qed
  qed
qed

lemma retry_loop_post:
  assumes "n < max_int64" and "0 \<le> attempt" and "retry_loop c t n start attempt r s = (e, r', s')"
  shows "loop_post c t n attempt r s e r' s'"
  using assms(2,3)
proof (induction "nat (n + 1 - attempt)" arbitrary: attempt r s rule: less_induct)
  case less
  show ?case
  proof (cases "n < attempt")
    case True
    with less.prems show ?thesis by (auto simp: loop_post_def)
  next
    case False
    then have a: "attempt \<le> n" by simp
    from a less.prems(1) assms(1) less.prems(2) show ?thesis
    proof (cases rule: retry_loop_round)
      case (again ov err w' s2)
      then have "loop_post c t n (attempt + 1) (r\<lparr>r_Attempt := attempt + 1\<rparr>) s2 e r' s'"
        using less.hyps [of "attempt + 1"] less.prems(1) by simp
      with again a show ?thesis by (auto simp: loop_post_def)
    qed (use a in \<open>auto simp: loop_post_def\<close>)
  qed
qed

text \<open>A task that never panics leaves the loop without one.\<close>

lemma retry_loop_no_panic:
  assumes "\<And>w v w'. t_execute t c w \<noteq> (Panic v, w') \<and> t_execute t c w \<noteq> (Crash v, w')"
    and "n < max_int64" and "0 \<le> attempt" and "retry_loop c t n start attempt r s = (e, r', s')"
  shows "e \<noteq> LoopPanicked v"
  using assms(3,4)
proof (induction "nat (n + 1 - attempt)" arbitrary: attempt r s rule: less_induct)
  case less
  show ?case
  proof (cases "n < attempt")
    case False
    then have a: "attempt \<le> n" by simp
    from a less.prems(1) assms(2) less.prems(2) show ?thesis
    proof (cases rule: retry_loop_round)
      case (panicked v' w')
      with assms(1) show ?thesis by blast
    next
      case (again ov err w' s2)
      then show ?thesis using less.hyps [of "attempt + 1"] a less.prems(1) by simp
    qed simp_all
  qed (use less.prems in auto)
qed

lemma executeWithRetries_cases:
  assumes "executeWithRetries c t r s = (p, s')"
  obtains (sent) r' s1 where "p = None" "s' = sendResult r' (updateTaskStats r' s1)"
      "retry_loop c t (effective_retries t (x_worker s)) (now (x_world s)) 0 r s = (LoopDone, r', s1)"
  | (returned) r' where "p = None"
      "retry_loop c t (effective_retries t (x_worker s)) (now (x_world s)) 0 r s = (LoopReturned, r', s')"
  | (panicked) v r' where "p = Some v"
      "retry_loop c t (effective_retries t (x_worker s)) (now (x_world s)) 0 r s = (LoopPanicked v, r', s')"
  using assms by (auto simp: executeWithRetries_def split: prod.splits loop_end.splits)

lemma effective_retries_mark_idle [simp]:
  "effective_retries t (x_worker (mark_idle s)) = effective_retries t (x_worker s)"
  by (simp add: effective_retries_def)

lemma ExecuteTask_no_panic:
  assumes "\<And>w v w'. t_execute t c w \<noteq> (Panic v, w') \<and> t_execute t c w \<noteq> (Crash v, w')"
    and "effective_retries t (x_worker s) < max_int64"
  shows "fst (ExecuteTask c t s) = None"
proof -
  have "fst (executeWithRetries c t r (mark_idle s)) = None" for r
  proof -
    obtain p s' where run: "executeWithRetries c t r (mark_idle s) = (p, s')" by (metis surj_pair)
    note safe = retry_loop_no_panic [OF assms(1), of "effective_retries t (x_worker s)" 0]
    from run show ?thesis
    proof (cases rule: executeWithRetries_cases)
      case (panicked v r')
      then show ?thesis
        using safe [OF assms(2) _ panicked(2) [unfolded effective_retries_mark_idle], of v] by simp
    qed (use run in simp_all)
  qed
  then show ?thesis by (simp add: ExecuteTask_def Let_def split: option.splits)
qed

section \<open>Sample states for the witnesses\<close>

definition sample_world :: world where
  "sample_world = \<lparr>now = 0, calls = 0, journal = [], coins = (\<lambda>_. True), flips = 0\<rparr>"

definition sample_exec :: "goint \<Rightarrow> (nat, unit) exec_state" where
  "sample_exec maxRetries =
     \<lparr>x_worker = NewBaseWorker 1 maxRetries 0, x_results = Some \<lparr>chan_buf = [], chan_cap = 2\<rparr>,
      x_world = sample_world\<rparr>"

text \<open>A task that fails twice and then succeeds with 42.\<close>

definition flaky_outs :: "nat \<Rightarrow> nat option \<times> go_error option" where
  "flaky_outs k = (if k < 2 then (None, Some (ErrorNew ''flaky'')) else (Some 42, None))"

definition scripted_task ::
  "goint \<Rightarrow> (nat \<Rightarrow> nat option \<times> go_error option) \<Rightarrow> (nat, unit) task" where
  "scripted_task retries outs =
     simple_iface (WithRetries retries (NewSimpleTask ''job'' ''sample''
       (Some (\<lambda>c i k. (Return (fst (outs k)) (snd (outs k)), 0)))))"

lemmas sample_defs =
  sample_world_def sample_exec_def NewBaseWorker_def scripted_task_def simple_iface_def
  WithRetries_def NewSimpleTask_def simple_Validate_def effective_retries_def

lemma ExecuteTask_cancelled_world:
  assumes "ctx_err c (now (x_world s)) = Some e"
  shows "x_world (snd (ExecuteTask c t s)) = x_world s" and "fst (ExecuteTask c t s) = None"
  using assms
  by (simp_all add: ExecuteTask_def executeWithRetries_def Let_def retry_loop.simps split: option.splits)

section \<open>Properties of \<open>ExecuteTask\<close>\<close>

text \<open>Whether the worker's statistics count a result: not when validation failed, and not when the
  context ended the execution.\<close>

definition stats_step :: "bool \<Rightarrow> go_error option \<Rightarrow> worker_stats \<Rightarrow> worker_stats \<Rightarrow> bool" where
  "stats_step counted err st st' \<longleftrightarrow>
     TasksProcessed st' = (if counted \<and> err = None then wrap64 (TasksProcessed st + 1) else TasksProcessed st) \<and>
     TasksFailed st' = (if counted \<and> err \<noteq> None then wrap64 (TasksFailed st + 1) else TasksFailed st)"

lemma ExecuteTask_sends:
  assumes "ExecuteTask c t s = (None, s')" and "effective_retries t (x_worker s) < max_int64"
  shows "\<exists>r counted. r_TaskID r = t_id t \<and> r_Worker r = w_id (x_worker s) \<and> r_Task r = Some t \<and>
    x_results s' = map_option (\<lambda>ch. fst (try_send ch r)) (x_results s) \<and>
    stats_step counted (r_Err r) (w_stats (x_worker s)) (w_stats (x_worker s')) \<and>
    (\<not> counted \<longrightarrow> r_Err r \<noteq> None \<and>
       (t_validate t (now (x_world s)) \<noteq> None \<or> ctx_err c (now (x_world s')) = r_Err r)) \<and>
    (t_validate t (now (x_world s)) = None \<and> 0 \<le> effective_retries t (x_worker s) \<longrightarrow>
       1 \<le> r_Attempt r \<and> r_Attempt r \<le> effective_retries t (x_worker s) + 1) \<and>
    w_id (x_worker s') = w_id (x_worker s) \<and> w_maxRetries (x_worker s') = w_maxRetries (x_worker s)"
proof (cases "t_validate t (now (x_world s))")
  case (Some err)
  let ?r = "(initial_result t (x_worker (mark_idle s)))
    \<lparr>r_Err := Some (Errorf ''task validation failed: '' err)\<rparr>"
  have "s' = sendResult ?r (mark_idle s)"
    using assms(1) Some by (simp add: ExecuteTask_def Let_def)
  then show ?thesis
    using Some by (intro exI [of _ ?r] exI [of _ False]) (simp add: stats_step_def)
next
  case None
  let ?r0 = "initial_result t (x_worker (mark_idle s))"
  have exec: "executeWithRetries c t ?r0 (mark_idle s) = (None, s')"
    using assms(1) None by (simp add: ExecuteTask_def Let_def)
  note post = retry_loop_post [OF assms(2), of 0, simplified]
  from exec show ?thesis
  proof (cases rule: executeWithRetries_cases)
    case (sent r' s1)
    then show ?thesis
      using post [OF sent(3) [simplified]] None
      by (intro exI [of _ r'] exI [of _ True]) (auto simp: loop_post_def stats_step_def)
  next
    case (returned r')
    then show ?thesis
      using post [OF returned(2) [simplified]] None
      by (intro exI [of _ r'] exI [of _ False]) (auto simp: loop_post_def stats_step_def)
  qed simp
qed

text \<open>C7: An execution that does not take the process down sends exactly one result for the task it was
  given; it counts it once, as processed or failed according to the result's error, except that a task
  which failed validation or was ended by its context is not counted; the attempt number is between
  one and the number of allowed attempts.\<close>

theorem ExecuteTask_accounting:
  assumes "ExecuteTask c t s = (None, s')" and "effective_retries t (x_worker s) < max_int64"
  shows "\<exists>r counted. r_TaskID r = t_id t \<and> r_Worker r = w_id (x_worker s) \<and> r_Task r = Some t \<and>
    x_results s' = map_option (\<lambda>ch. fst (try_send ch r)) (x_results s) \<and>
    stats_step counted (r_Err r) (w_stats (x_worker s)) (w_stats (x_worker s')) \<and>
    (\<not> counted \<longrightarrow> r_Err r \<noteq> None \<and>
       (t_validate t (now (x_world s)) \<noteq> None \<or> ctx_err c (now (x_world s')) = r_Err r)) \<and>
    (t_validate t (now (x_world s)) = None \<and> 0 \<le> effective_retries t (x_worker s) \<longrightarrow>
       1 \<le> r_Attempt r \<and> r_Attempt r \<le> effective_retries t (x_worker s) + 1)"
  using ExecuteTask_sends [OF assms] by metis

theorem ExecuteTask_accounting_witness:
  "\<exists>r s'. ExecuteTask (cancel_at background 0) (scripted_task 2 flaky_outs) (sample_exec 3) = (None, s') \<and>
    x_results s' = Some \<lparr>chan_buf = [r], chan_cap = 2\<rparr> \<and> r_TaskID r = ''job'' \<and> r_Worker r = 1"
proof -
  let ?c = "cancel_at background 0" and ?t = "scripted_task 2 flaky_outs" and ?s = "sample_exec 3"
  have "ctx_err ?c (now (x_world ?s)) = Some Canceled"
    by (simp add: sample_defs ctx_err_def cancel_at_def background_def)
  from ExecuteTask_cancelled_world(2) [OF this, of ?t]
  obtain s' where run: "ExecuteTask ?c ?t ?s = (None, s')" by (cases "ExecuteTask ?c ?t ?s") auto
  have "effective_retries ?t (x_worker ?s) < max_int64" by (simp add: sample_defs)
  from ExecuteTask_accounting [OF run this] run show ?thesis
    by (auto simp: sample_defs try_send_def)
qed

text \<open>A context that is already done ends the execution before the task runs: one result with the
  context's error and attempt number one, no user code called, no time spent.\<close>

lemma ExecuteTask_cancelled:
  assumes "ctx_err c (now (x_world s)) = Some e" and "t_validate t (now (x_world s)) = None"
    and "0 \<le> effective_retries t (x_worker s)"
  shows "ExecuteTask c t s = (None, sendResult \<lparr>r_TaskID = t_id t, r_Output = None, r_Err = Some e,
    r_Duration = 0, r_Worker = w_id (x_worker s), r_Attempt = 1, r_Task = Some t\<rparr> (mark_idle s))"
  using assms
  by (simp add: ExecuteTask_def executeWithRetries_def Let_def retry_loop.simps wrap64_id
      initial_result_def time_sub_def)

text \<open>With a negative retry limit (a worker created with a negative \<open>maxRetries\<close> and a task that
  asks for none) the loop body never runs, and the task is reported and counted as a success
  although it was not executed.\<close>

lemma ExecuteTask_negative_retries:
  assumes "t_validate t (now (x_world s)) = None" and "effective_retries t (x_worker s) < 0"
  shows "\<exists>s'. ExecuteTask c t s = (None, s') \<and> x_world s' = x_world s \<and>
    TasksProcessed (w_stats (x_worker s')) = wrap64 (TasksProcessed (w_stats (x_worker s)) + 1) \<and>
    x_results s' = map_option (\<lambda>ch. fst (try_send ch (initial_result t (x_worker s)))) (x_results s)"
proof -
  have "initial_result t (x_worker (mark_idle s)) = initial_result t (x_worker s)"
    by (simp add: initial_result_def)
  with assms show ?thesis by (simp add: ExecuteTask_def executeWithRetries_def Let_def)
qed

text \<open>A panic of the task is not recovered on the worker's goroutine.\<close>

lemma ExecuteTask_panics:
  assumes "ctx_err c (now (x_world s)) = None" and "t_validate t (now (x_world s)) = None"
    and "0 \<le> effective_retries t (x_worker s)" and "t_execute t c (x_world s) = (Panic v, w')"
  shows "\<exists>s'. ExecuteTask c t s = (Some v, s') \<and> x_results s' = x_results s"
  using assms by (simp add: ExecuteTask_def executeWithRetries_def Let_def retry_loop.simps)

section \<open>The retry loop against its specification\<close>

text \<open>
  A scripted function: its \<open>k\<close>-th call returns \<open>outs k\<close> after \<open>dur k\<close> nanoseconds.
  What a worker without cancellation should report for it is the first success among the allowed
  attempts, or else the error of the last one.
\<close>

definition scripted ::
  "(nat \<Rightarrow> 'o option \<times> go_error option) \<Rightarrow> (nat \<Rightarrow> nat) \<Rightarrow> 'o task_func" where
  "scripted outs dur c i k = (Return (fst (outs k)) (snd (outs k)), dur k)"

fun first_success :: "(nat \<Rightarrow> 'o option \<times> go_error option) \<Rightarrow> nat \<Rightarrow> nat \<Rightarrow> nat option" where
  "first_success outs k 0 = None"
| "first_success outs k (Suc n) = (if snd (outs k) = None then Some k else first_success outs (Suc k) n)"

definition retry_spec ::
  "string \<Rightarrow> (nat \<Rightarrow> 'o option \<times> go_error option) \<Rightarrow> nat \<Rightarrow> nat \<Rightarrow>
    'o option \<times> go_error option \<times> goint" where
  "retry_spec tid outs k n =
     (case first_success outs k (Suc n) of
        Some j \<Rightarrow> (fst (outs j), None, int (j - k) + 1)
      | None \<Rightarrow>
          (None,
           map_option (\<lambda>e. NewTaskError tid (int n + 1) (error_text e) (Some e)) (snd (outs (k + n))),
           int n + 1))"

lemma first_success_ge: "first_success outs k n = Some j \<Longrightarrow> k \<le> j \<and> j < k + n"
  by (induction n arbitrary: k) (fastforce split: if_splits)+

definition scripted_post ::
  "string \<Rightarrow> (nat \<Rightarrow> 'o option \<times> go_error option) \<Rightarrow> nat \<Rightarrow> nat \<Rightarrow> goint \<Rightarrow> goint \<Rightarrow>
    ('o, 'cb) result \<Rightarrow> bool" where
  "scripted_post tid outs k n a N r \<longleftrightarrow>
     (case first_success outs k (Suc n) of
        Some j \<Rightarrow> r_Output r = fst (outs j) \<and> r_Err r = None \<and> r_Attempt r = a + int (j - k) + 1
      | None \<Rightarrow> r_Output r = None \<and> r_Attempt r = N + 1 \<and>
          r_Err r = map_option (\<lambda>e. NewTaskError tid (N + 1) (error_text e) (Some e)) (snd (outs (k + n))))"

lemma scripted_post_next:
  assumes "snd (outs k) = Some e" and "scripted_post tid outs (Suc k) n (a + 1) N r"
  shows "scripted_post tid outs k (Suc n) a N r"
  using assms first_success_ge [of outs "Suc k" "Suc n"]
  by (auto simp: scripted_post_def first_success.simps(2) [of outs k "Suc n"]
      simp del: first_success.simps split: option.splits)

lemma retry_loop_scripted:
  assumes exec: "\<And>w. t_execute t background w = call_func (scripted outs dur) background w"
    and N: "N < max_int64"
  shows "retry_loop background t N start a r s = (e, r', s') \<Longrightarrow> N = a + int n \<Longrightarrow> 0 \<le> a \<Longrightarrow>
    r_Output r = None \<Longrightarrow> r_Err r = None \<Longrightarrow>
    e = LoopDone \<and> scripted_post (t_id t) outs (calls (x_world s)) n a N r'"
proof (induction n arbitrary: a r s)
  case 0
  then have "a \<le> N" by simp
  from this 0(3) N 0(1) show ?case
    by (cases rule: retry_loop_round)
      (use 0 in \<open>auto simp: exec call_func_def scripted_def scripted_post_def\<close>)
next
  case (Suc n)
  then have "a \<le> N" by simp
  from this Suc.prems(3) N Suc.prems(1) show ?case
  proof (cases rule: retry_loop_round)
    case (again ov err w' s2)
    then have k: "calls (x_world s2) = Suc (calls (x_world s))" "snd (outs (calls (x_world s))) = Some err"
      by (auto simp: exec call_func_def scripted_def)
    show ?thesis
      using Suc.IH [OF again(8)] Suc.prems scripted_post_next [of outs "calls (x_world s)" err "t_id t" n a N r'] k by simp
  qed (use Suc.prems in \<open>auto simp: exec call_func_def scripted_def scripted_post_def\<close>)
qed

text \<open>C3: For a task whose function follows a script and a context that is never done, the worker
  performs at most \<open>maxRetries + 1\<close> attempts and reports the first success among them with its
  output and attempt number, or else, after the last attempt, a \<open>TaskError\<close> that names the task and
  the number of attempts and wraps the last error.\<close>

theorem ExecuteTask_first_success:
  assumes "t_execute t = call_func (scripted outs dur)" and "t_validate t (now (x_world s)) = None"
    and "effective_retries t (x_worker s) = int n" and "int n < max_int64"
  shows "\<exists>r s'. ExecuteTask background t s = (None, s') \<and>
    x_results s' = map_option (\<lambda>ch. fst (try_send ch r)) (x_results s) \<and>
    r_TaskID r = t_id t \<and>
    (r_Output r, r_Err r, r_Attempt r) = retry_spec (t_id t) outs (calls (x_world s)) n"
proof -
  let ?r0 = "initial_result t (x_worker (mark_idle s))"
  obtain e r' s1 where loop: "retry_loop background t (int n) (now (x_world s)) 0 ?r0 (mark_idle s) = (e, r', s1)"
    by (metis surj_pair)
  have post: "e = LoopDone" "scripted_post (t_id t) outs (calls (x_world s)) n 0 (int n) r'"
    using retry_loop_scripted [OF _ assms(4) loop, of outs dur n] assms(1) by simp_all
  have frame: "r_TaskID r' = t_id t" "x_results s1 = x_results s"
    using retry_loop_post [OF assms(4) _ loop] post(1) by (simp_all add: loop_post_def)
  have "ExecuteTask background t s = (None, sendResult r' (updateTaskStats r' s1))"
    using assms(2,3) loop post(1) by (simp add: ExecuteTask_def executeWithRetries_def Let_def)
  moreover have "(r_Output r', r_Err r', r_Attempt r') = retry_spec (t_id t) outs (calls (x_world s)) n"
    using post(2) by (auto simp: scripted_post_def retry_spec_def simp del: first_success.simps
        split: option.splits)
  ultimately show ?thesis
    using frame by (intro exI [of _ r'] exI [of _ "sendResult r' (updateTaskStats r' s1)"]) simp
qed

theorem ExecuteTask_first_success_witness:
  "\<exists>r s'. ExecuteTask background (scripted_task 2 flaky_outs) (sample_exec 3) = (None, s') \<and>
    x_results s' = Some \<lparr>chan_buf = [r], chan_cap = 2\<rparr> \<and>
    r_Output r = Some 42 \<and> r_Err r = None \<and> r_Attempt r = 3"
proof -
  have "\<exists>r s'. ExecuteTask background (scripted_task 2 flaky_outs) (sample_exec 3) = (None, s') \<and>
      x_results s' = map_option (\<lambda>ch. fst (try_send ch r)) (x_results (sample_exec 3)) \<and>
      r_TaskID r = t_id (scripted_task 2 flaky_outs) \<and>
      (r_Output r, r_Err r, r_Attempt r) = retry_spec (t_id (scripted_task 2 flaky_outs)) flaky_outs
        (calls (x_world (sample_exec 3))) 2"
    by (rule ExecuteTask_first_success [where dur = "\<lambda>_. 0"])
      (simp_all add: sample_defs simple_Execute_def scripted_def fun_eq_iff call_func_def)
  then show ?thesis
    by (auto simp: sample_exec_def sample_world_def try_send_def retry_spec_def flaky_outs_def numeral_nat)
qed

section \<open>SimpleWorker\<close>

text \<open>
  The worker with its task channel (\<open>None\<close> is a nil channel, from which nothing is ever received),
  its own cancellable context and its processing goroutine.
\<close>

record ('o, 'cb) simple_worker =
  sw_exec :: "('o, 'cb) exec_state"
  sw_taskCh :: "('o, 'cb) task chan option"
  sw_taskCh_closed :: bool
  sw_ctx :: ctx
  sw_running :: bool
  sw_panic :: "panic_val option"

definition NewSimpleWorker ::
  "goint \<Rightarrow> ('o, 'cb) task chan option \<Rightarrow> ('o, 'cb) result chan option \<Rightarrow> goint \<Rightarrow> world \<Rightarrow>
    ('o, 'cb) simple_worker" where
  "NewSimpleWorker wid taskCh resultCh maxRetries w =
     \<lparr>sw_exec = \<lparr>x_worker = NewBaseWorker wid maxRetries (now w), x_results = resultCh, x_world = w\<rparr>,
      sw_taskCh = taskCh, sw_taskCh_closed = False, sw_ctx = background, sw_running = False,
      sw_panic = None\<rparr>"

definition sw_Start :: "('o, 'cb) simple_worker \<Rightarrow> ('o, 'cb) simple_worker" where
  "sw_Start s = s\<lparr>sw_running := True\<rparr>"

definition sw_Stop :: "('o, 'cb) simple_worker \<Rightarrow> ('o, 'cb) simple_worker" where
  "sw_Stop s = s\<lparr>sw_ctx := cancel_at (sw_ctx s) (now (x_world (sw_exec s)))\<rparr>"

text \<open>\<open>Stop\<close> returns when the goroutine has ended; here, the state it is in when it ended
  without taking another task.\<close>

definition sw_halt :: "('o, 'cb) simple_worker \<Rightarrow> ('o, 'cb) simple_worker" where
  "sw_halt s = (sw_Stop s)\<lparr>sw_running := False\<rparr>"

text \<open>
  One round of the \<open>for\<close>/\<open>select\<close> of \<open>Start\<close>, for the context that \<open>Start\<close> received:
  any ready case may be taken; while none is, time passes.
\<close>

inductive worker_step :: "ctx \<Rightarrow> ('o, 'cb) simple_worker \<Rightarrow> ('o, 'cb) simple_worker \<Rightarrow> bool"
  for c :: ctx where
  exit_ctx: "sw_running s \<Longrightarrow> ctx_err c (now (x_world (sw_exec s))) \<noteq> None \<Longrightarrow>
    worker_step c s (s\<lparr>sw_running := False\<rparr>)"
| exit_own: "sw_running s \<Longrightarrow> ctx_err (sw_ctx s) (now (x_world (sw_exec s))) \<noteq> None \<Longrightarrow>
    worker_step c s (s\<lparr>sw_running := False\<rparr>)"
| exit_closed: "sw_running s \<Longrightarrow> sw_taskCh s = Some ch \<Longrightarrow> sw_taskCh_closed s \<Longrightarrow> chan_buf ch = [] \<Longrightarrow>
    worker_step c s (s\<lparr>sw_running := False\<rparr>)"
| take: "sw_running s \<Longrightarrow> sw_taskCh s = Some ch \<Longrightarrow> try_recv ch = Some (t, ch') \<Longrightarrow>
    ExecuteTask c t (sw_exec s) = (p, x) \<Longrightarrow>
    worker_step c s (s\<lparr>sw_taskCh := Some ch', sw_exec := x, sw_panic := p, sw_running := (p = None)\<rparr>)"
| idle: "sw_running s \<Longrightarrow>
    worker_step c s (s\<lparr>sw_exec := (sw_exec s)\<lparr>x_world := advance d (x_world (sw_exec s))\<rparr>\<rparr>)"

inductive_cases worker_stepE: "worker_step c s s'"

text \<open>A started worker as the README builds it.\<close>

definition sample_worker :: "(nat, unit) simple_worker" where
  "sample_worker = sw_Start (NewSimpleWorker 1 None None 3 sample_world)"

lemma sample_worker_simps [simp]:
  "sw_running sample_worker" "x_world (sw_exec sample_worker) = sample_world"
  by (simp_all add: sample_worker_def sw_Start_def NewSimpleWorker_def)

text \<open>A worker without a task channel only ever waits.\<close>

lemma no_channel_worker_idle:
  assumes "(worker_step c)\<^sup>*\<^sup>* s s'" and "sw_taskCh s = None"
  shows "calls (x_world (sw_exec s')) = calls (x_world (sw_exec s)) \<and>
    x_results (sw_exec s') = x_results (sw_exec s) \<and> x_worker (sw_exec s') = x_worker (sw_exec s) \<and>
    sw_taskCh s' = None"
  using assms(1)
proof (induction rule: rtranclp_induct)
  case (step s1 s2)
  from step.hyps(2) step.IH show ?case by (auto elim!: worker_stepE)
qed (simp add: assms(2))

text \<open>The worker of the README, created with nil channels, never runs a task: in every state its
  goroutine can reach no user code was called, and no result exists.\<close>

lemma nil_channel_worker_never_works:
  assumes "(worker_step c)\<^sup>*\<^sup>* (sw_Start (NewSimpleWorker wid None resultCh maxRetries w)) s"
  shows "calls (x_world (sw_exec s)) = calls w \<and> x_results (sw_exec s) = resultCh \<and>
    TasksProcessed (w_stats (x_worker (sw_exec s))) = 0 \<and> TasksFailed (w_stats (x_worker (sw_exec s))) = 0"
  using no_channel_worker_idle [OF assms]
  by (simp add: sw_Start_def NewSimpleWorker_def NewBaseWorker_def)

text \<open>Under a context that is done a worker goroutine calls no user code, whatever tasks it takes
  before it notices.\<close>

lemma cancelled_worker_never_works:
  assumes "(worker_step c)\<^sup>*\<^sup>* s s'" and "ctx_err c (now (x_world (sw_exec s))) \<noteq> None"
  shows "calls (x_world (sw_exec s')) = calls (x_world (sw_exec s)) \<and> sw_panic s' \<in> {sw_panic s, None}"
proof -
  from assms have "calls (x_world (sw_exec s')) = calls (x_world (sw_exec s)) \<and>
    sw_panic s' \<in> {sw_panic s, None} \<and> ctx_err c (now (x_world (sw_exec s'))) \<noteq> None"
  proof (induction rule: rtranclp_induct)
    case (step s1 s2)
    then obtain e where e: "ctx_err c (now (x_world (sw_exec s1))) = Some e" by blast
    from step.hyps(2) show ?case
    proof cases
      case (take ch t ch' p x)
      with ExecuteTask_cancelled_world [OF e, of t] step.IH step.prems e show ?thesis by simp
    next
      case (idle d)
      have "ctx_err c (now (x_world (sw_exec s1)) + int d) = Some e"
        using e by (rule ctx_err_stable) simp
      with idle step.IH step.prems show ?thesis by simp
    qed (use step.IH step.prems e in simp_all)
  qed simp
  then show ?thesis by blast
qed

text \<open>What a worker has done when it has taken the first \<open>k\<close> tasks \<open>ts\<close> of its channel: it sent the
  results \<open>rs\<close>, one for each of them.\<close>

definition worker_done ::
  "goint \<Rightarrow> goint \<Rightarrow> ('o, 'cb) task chan \<Rightarrow> ('o, 'cb) result chan \<Rightarrow> ('o, 'cb) simple_worker \<Rightarrow>
    ('o, 'cb) result list \<Rightarrow> nat \<Rightarrow> nat \<Rightarrow> bool" where
  "worker_done wid maxRetries ch rch s rs k f \<longleftrightarrow>
     k \<le> length (chan_buf ch) \<and> sw_taskCh s = Some (ch\<lparr>chan_buf := drop k (chan_buf ch)\<rparr>) \<and>
     map r_Task rs = map Some (take k (chan_buf ch)) \<and> map r_TaskID rs = map t_id (take k (chan_buf ch)) \<and>
     (\<forall>r \<in> set rs. r_Worker r = wid) \<and>
     x_results (sw_exec s) = Some (foldl (\<lambda>c r. fst (try_send c r)) rch rs) \<and>
     TasksProcessed (w_stats (x_worker (sw_exec s))) = wrap64 (int (length (filter (\<lambda>r. r_Err r = None) rs))) \<and>
     TasksFailed (w_stats (x_worker (sw_exec s))) = wrap64 (int f) \<and>
     f \<le> length (filter (\<lambda>r. r_Err r \<noteq> None) rs) \<and>
     w_id (x_worker (sw_exec s)) = wid \<and> w_maxRetries (x_worker (sw_exec s)) = maxRetries"

lemma wrap64_succ: "wrap64 (wrap64 (int n) + 1) = wrap64 (int (Suc n))"
  using wrap64_add_right [of 1 "int n"] by (simp add: add.commute)

text \<open>Until a task panics, and then the worker has stopped.\<close>

definition worker_fine ::
  "goint \<Rightarrow> goint \<Rightarrow> ('o, 'cb) task chan \<Rightarrow> ('o, 'cb) result chan \<Rightarrow> ('o, 'cb) simple_worker \<Rightarrow> bool" where
  "worker_fine wid maxRetries ch rch s \<longleftrightarrow>
     (if sw_panic s = None then \<exists>rs k f. worker_done wid maxRetries ch rch s rs k f else \<not> sw_running s)"

lemma worker_done_frame:
  assumes "worker_done wid m ch rch s rs k f" "sw_taskCh s' = sw_taskCh s"
    "x_results (sw_exec s') = x_results (sw_exec s)" "x_worker (sw_exec s') = x_worker (sw_exec s)"
  shows "worker_done wid m ch rch s' rs k f"
  using assms by (simp add: worker_done_def)

lemma worker_take_done:
  assumes "worker_done wid m ch rch s rs k f" and "sw_taskCh s = Some ch1" and "try_recv ch1 = Some (t, ch')"
    and "ExecuteTask c t (sw_exec s) = (None, x)"
    and "\<forall>t \<in> set (chan_buf ch). t_max_retries t < max_int64" and "m < max_int64"
  shows "\<exists>rs k f. worker_done wid m ch rch
    (s\<lparr>sw_taskCh := Some ch', sw_exec := x, sw_panic := None, sw_running := True\<rparr>) rs k f"
proof -
  have ch1: "ch1 = ch\<lparr>chan_buf := drop k (chan_buf ch)\<rparr>"
    using assms(1,2) by (simp add: worker_done_def)
  then have buf: "drop k (chan_buf ch) = t # chan_buf ch'" and ch': "ch' = ch\<lparr>chan_buf := chan_buf ch'\<rparr>"
    using assms(3) by (auto simp: try_recv_def elim: try_recv_buf.elims)
  have k: "k < length (chan_buf ch)" using buf by (metis drop_all list.distinct(1) not_le)
  have t: "t = chan_buf ch ! k" "chan_buf ch' = drop (Suc k) (chan_buf ch)"
    using buf k by (simp_all add: Cons_nth_drop_Suc [symmetric])
  have "t \<in> set (chan_buf ch)" using t(1) k by simp
  then have "effective_retries t (x_worker (sw_exec s)) < max_int64"
    using assms(1,5,6) by (auto simp: effective_retries_def worker_done_def)
  from ExecuteTask_sends [OF assms(4) this] obtain r counted where r: "r_TaskID r = t_id t"
    "r_Worker r = w_id (x_worker (sw_exec s))" "r_Task r = Some t"
    "x_results x = map_option (\<lambda>ch. fst (try_send ch r)) (x_results (sw_exec s))"
    "stats_step counted (r_Err r) (w_stats (x_worker (sw_exec s))) (w_stats (x_worker x))"
    "\<not> counted \<longrightarrow> r_Err r \<noteq> None" "w_id (x_worker x) = w_id (x_worker (sw_exec s))"
    "w_maxRetries (x_worker x) = w_maxRetries (x_worker (sw_exec s))" by blast
  have "worker_done wid m ch rch
      (s\<lparr>sw_taskCh := Some ch', sw_exec := x, sw_panic := None, sw_running := True\<rparr>)
      (rs @ [r]) (Suc k) (if counted \<and> r_Err r \<noteq> None then Suc f else f)"
    using assms(1) r k t ch'
    by (cases counted; cases "r_Err r")
      (auto simp: worker_done_def stats_step_def wrap64_succ take_Suc_conv_app_nth simp del: of_nat_Suc)
  then show ?thesis by blast
qed

lemma worker_step_fine:
  assumes "worker_step c s s'" and "worker_fine wid m ch rch s"
    and "\<forall>t \<in> set (chan_buf ch). t_max_retries t < max_int64" and "m < max_int64"
  shows "worker_fine wid m ch rch s'"
proof -
  have panic: "sw_panic s = None" using assms(1,2) by (auto simp: worker_fine_def elim: worker_stepE split: if_splits)
  then obtain rs k f where d: "worker_done wid m ch rch s rs k f" using assms(2) by (auto simp: worker_fine_def)
  note frame = worker_done_frame [OF d]
  from assms(1) show ?thesis
  proof cases
    case (take ch1 t ch' p x)
    then show ?thesis using worker_take_done [OF d take(3,4) _ assms(3,4), of c x]
      by (cases p) (auto simp: worker_fine_def)
  next
    case exit_ctx
    have "worker_done wid m ch rch s' rs k f" by (rule frame) (simp_all add: exit_ctx)
    with panic exit_ctx show ?thesis by (auto simp: worker_fine_def)
  next
    case exit_own
    have "worker_done wid m ch rch s' rs k f" by (rule frame) (simp_all add: exit_own)
    with panic exit_own show ?thesis by (auto simp: worker_fine_def)
  next
    case (exit_closed ch1)
    have "worker_done wid m ch rch s' rs k f" by (rule frame) (simp_all add: exit_closed)
    with panic exit_closed show ?thesis by (auto simp: worker_fine_def)
  next
    case (idle d)
    have "worker_done wid m ch rch s' rs k f" by (rule frame) (simp_all add: idle)
    with panic idle show ?thesis by (auto simp: worker_fine_def)
  qed
qed



end
