(* ===== verification/Pool.thy ===== *)
theory Pool
  imports Worker "HOL-Library.AList"
begin

text \<open>
  The worker pool (\<open>pkg/worker/pool.go\<close>).

  The worker map is an association list with distinct keys.  Go iterates over a map in an
  unspecified order, so the worker that \<open>removeWorker\<close> takes is chosen by an oracle,
  \<open>e_pick\<close>; every theorem holds for all oracles.  The factory and the two methods of the
  \<open>Worker\<close> interface that the pool calls are the other fields of \<open>pool_env\<close>.
  \<open>p_stopped\<close> records the workers whose \<open>Stop\<close> was called, in order.  Log lines are left out.
\<close>

section \<open>State\<close>

record 'w pool_env =
  e_create :: "goint \<Rightarrow> go_error + 'w"
  e_start :: "ctx \<Rightarrow> 'w \<Rightarrow> 'w"
  e_stop :: "'w \<Rightarrow> 'w"
  e_pick :: "(goint \<times> 'w) list \<Rightarrow> nat"

record 'w pool =
  p_ctx :: ctx
  p_workers :: "(goint \<times> 'w) list"
  p_size :: goint
  p_maxSize :: goint
  p_nextWorkerID :: int
  p_started :: bool
  p_stopped :: "'w list"

abbreviation p_len :: "'w pool \<Rightarrow> goint" where
  "p_len p \<equiv> int (length (p_workers p))"

definition NewPool :: "ctx \<Rightarrow> goint \<Rightarrow> goint \<Rightarrow> go_error + 'w pool" where
  "NewPool c initialSize maxSize =
     (let n = (if initialSize < 0 then 0 else initialSize)
      in if maxSize \<le> 0 then Inl (ErrorNew ''max size must be greater than 0'')
         else Inr \<lparr>p_ctx = c, p_workers = [], p_size = (if n > maxSize then maxSize else n),
                   p_maxSize = maxSize, p_nextWorkerID = 0, p_started = False, p_stopped = []\<rparr>)"

section \<open>Single workers\<close>

definition addWorker :: "'w pool_env \<Rightarrow> 'w pool \<Rightarrow> go_error option \<times> 'w pool" where
  "addWorker env p =
     (let wid = wrap32 (p_nextWorkerID p + 1); p1 = p\<lparr>p_nextWorkerID := wid\<rparr>
      in case e_create env wid of
           Inl e \<Rightarrow> (Some (Errorf (''failed to create worker '' @ show_int wid @ '': '') e), p1)
         | Inr w \<Rightarrow>
             (None, p1\<lparr>p_workers := AList.update wid (e_start env (p_ctx p) w) (p_workers p)\<rparr>))"

definition removeWorker :: "'w pool_env \<Rightarrow> 'w pool \<Rightarrow> bool \<times> 'w pool" where
  "removeWorker env p =
     (if p_workers p = [] then (False, p)
      else
        let (wid, w) = p_workers p ! (e_pick env (p_workers p) mod length (p_workers p))
        in (True, p\<lparr>p_workers := AList.delete wid (p_workers p),
                    p_stopped := p_stopped p @ [e_stop env w]\<rparr>))"

definition stopAllWorkers :: "'w pool_env \<Rightarrow> 'w pool \<Rightarrow> 'w pool" where
  "stopAllWorkers env p =
     p\<lparr>p_stopped := p_stopped p @ map (e_stop env \<circ> snd) (p_workers p), p_workers := []\<rparr>"

section \<open>Start and Stop\<close>

fun add_workers :: "'w pool_env \<Rightarrow> nat \<Rightarrow> 'w pool \<Rightarrow> go_error option \<times> 'w pool" where
  "add_workers env 0 p = (None, p)"
| "add_workers env (Suc n) p =
     (case addWorker env p of
        (Some e, p') \<Rightarrow> (Some e, p')
      | (None, p') \<Rightarrow> add_workers env n p')"

definition pool_Start :: "'w pool_env \<Rightarrow> 'w pool \<Rightarrow> go_error option \<times> 'w pool" where
  "pool_Start env p =
     (if p_started p then (Some (ErrorNew ''pool already started''), p)
      else case add_workers env (nat (p_size p)) p of
             (Some e, p') \<Rightarrow> (Some (Errorf ''failed to add worker: '' e), stopAllWorkers env p')
           | (None, p') \<Rightarrow> (None, p'\<lparr>p_started := True\<rparr>))"

definition pool_Stop :: "'w pool_env \<Rightarrow> instant \<Rightarrow> 'w pool \<Rightarrow> 'w pool" where
  "pool_Stop env i p =
     (if \<not> p_started p then p
      else (stopAllWorkers env (p\<lparr>p_ctx := cancel_at (p_ctx p) i\<rparr>))\<lparr>p_started := False\<rparr>)"

section \<open>Scaling\<close>

definition calculateNewSize :: "'w pool \<Rightarrow> goint \<Rightarrow> goint" where
  "calculateNewSize p delta =
     (let n = wrap64 (p_len p + delta);
          n1 = (if n < 1 then 1 else n)
      in if n1 > p_maxSize p then p_maxSize p else n1)"

fun scale_up_loop :: "'w pool_env \<Rightarrow> goint \<Rightarrow> nat \<Rightarrow> nat \<Rightarrow> 'w pool \<Rightarrow> goint \<times> 'w pool" where
  "scale_up_loop env target 0 added p = (int added, p)"
| "scale_up_loop env target (Suc k) added p =
     (if p_len p < target then
        (case addWorker env p of
           (Some e, p') \<Rightarrow> (int added, p')
         | (None, p') \<Rightarrow> scale_up_loop env target k (Suc added) p')
      else (int added, p))"

definition scaleUp :: "'w pool_env \<Rightarrow> goint \<Rightarrow> 'w pool \<Rightarrow> goint \<times> 'w pool" where
  "scaleUp env target p =
     (let toAdd = target - p_len p
      in if toAdd \<le> 0 then (0, p) else scale_up_loop env target (nat toAdd) 0 p)"

fun scale_down_loop :: "'w pool_env \<Rightarrow> goint \<Rightarrow> nat \<Rightarrow> nat \<Rightarrow> 'w pool \<Rightarrow> goint \<times> 'w pool" where
  "scale_down_loop env target 0 removed p = (int removed, p)"
| "scale_down_loop env target (Suc k) removed p =
     (if p_len p > target then
        (case removeWorker env p of
           (True, p') \<Rightarrow> scale_down_loop env target k (Suc removed) p'
         | (False, p') \<Rightarrow> (int removed, p'))
      else (int removed, p))"

definition scaleDown :: "'w pool_env \<Rightarrow> goint \<Rightarrow> 'w pool \<Rightarrow> goint \<times> 'w pool" where
  "scaleDown env target p =
     (let toRemove = p_len p - target
      in if toRemove \<le> 0 then (0, p) else scale_down_loop env target (nat toRemove) 0 p)"

definition Scale :: "'w pool_env \<Rightarrow> goint \<Rightarrow> 'w pool \<Rightarrow> (goint \<times> goint) \<times> 'w pool" where
  "Scale env delta p =
     (if \<not> p_started p then ((0, 0), p)
      else
        let newSize = calculateNewSize p delta
        in if delta > 0 then (case scaleUp env newSize p of (a, p') \<Rightarrow> ((a, 0), p'))
           else if delta < 0 then (case scaleDown env newSize p of (r, p') \<Rightarrow> ((0, r), p'))
           else ((0, 0), p))"

definition pool_Size :: "'w pool \<Rightarrow> goint" where
  "pool_Size p = p_len p"

definition pool_GetActiveWorkerCount :: "'w pool \<Rightarrow> goint" where
  "pool_GetActiveWorkerCount p = pool_Size p"

definition pool_GetMaxSize :: "'w pool \<Rightarrow> goint" where
  "pool_GetMaxSize p = p_maxSize p"

section \<open>Invariant\<close>

text \<open>Keys are distinct, the bound holds, and only a started pool has workers.\<close>

definition pool_ok :: "'w pool \<Rightarrow> bool" where
  "pool_ok p \<longleftrightarrow>
     distinct (map fst (p_workers p)) \<and> 0 < p_maxSize p \<and> p_len p \<le> p_maxSize p \<and>
     0 \<le> p_size p \<and> p_size p \<le> p_maxSize p \<and> (\<not> p_started p \<longrightarrow> p_workers p = [])"

lemma NewPool_ok: "NewPool c n m = Inr p \<Longrightarrow> pool_ok p \<and> p_ctx p = c \<and> p_started p = False"
  by (auto simp: NewPool_def pool_ok_def Let_def split: if_splits)

lemma length_update_le: "length (AList.update k v ws) \<le> Suc (length ws)"
  by (induction ws) auto

lemma length_update_new: "k \<notin> fst ` set ws \<Longrightarrow> length (AList.update k v ws) = Suc (length ws)"
  by (induction ws) auto

lemma update_values: "snd ` set (AList.update k v ws) \<subseteq> insert v (snd ` set ws)"
  by (induction ws) auto

lemma length_delete_key:
  "distinct (map fst ws) \<Longrightarrow> k \<in> fst ` set ws \<Longrightarrow> Suc (length (AList.delete k ws)) = length ws"
proof (induction ws)
  case (Cons x ws)
  then show ?case by (cases x; cases "fst x = k") (auto simp: AList.delete_simps)
qed simp

lemma addWorker_frame:
  assumes "addWorker env p = (e, p')"
  shows "p_maxSize p' = p_maxSize p" "p_size p' = p_size p" "p_started p' = p_started p"
    "p_ctx p' = p_ctx p" "p_stopped p' = p_stopped p"
    "distinct (map fst (p_workers p)) \<Longrightarrow> distinct (map fst (p_workers p'))"
    "length (p_workers p') \<le> Suc (length (p_workers p))"
    "e \<noteq> None \<Longrightarrow> p_workers p' = p_workers p"
  using assms
  by (auto simp: addWorker_def Let_def length_update_le distinct_update split: sum.splits)

lemma removeWorker_frame:
  assumes "removeWorker env p = (ok, p')"
  shows "p_maxSize p' = p_maxSize p" "p_size p' = p_size p" "p_started p' = p_started p"
    "p_ctx p' = p_ctx p" "ok \<longleftrightarrow> p_workers p \<noteq> []"
    "distinct (map fst (p_workers p)) \<Longrightarrow> distinct (map fst (p_workers p'))"
  using assms
  by (auto simp: removeWorker_def Let_def distinct_delete split: if_splits prod.splits)

lemma removeWorker_length:
  assumes "removeWorker env p = (True, p')" "distinct (map fst (p_workers p))"
  shows "Suc (length (p_workers p')) = length (p_workers p)"
proof -
  let ?i = "e_pick env (p_workers p) mod length (p_workers p)"
  have ne: "p_workers p \<noteq> []" using assms(1) by (auto simp: removeWorker_def split: if_splits)
  then have "p_workers p ! ?i \<in> set (p_workers p)" by simp
  then have "fst (p_workers p ! ?i) \<in> fst ` set (p_workers p)" by blast
  moreover have "p_workers p' = AList.delete (fst (p_workers p ! ?i)) (p_workers p)"
    using assms(1) ne by (auto simp: removeWorker_def Let_def split: prod.splits)
  ultimately show ?thesis using length_delete_key [OF assms(2)] by simp
qed

text \<open>What every loop over the pool keeps.\<close>

definition same_pool :: "'w pool \<Rightarrow> 'w pool \<Rightarrow> bool" where
  "same_pool p p' \<longleftrightarrow> p_maxSize p' = p_maxSize p \<and> p_size p' = p_size p \<and>
     p_started p' = p_started p \<and> p_ctx p' = p_ctx p \<and>
     (distinct (map fst (p_workers p)) \<longrightarrow> distinct (map fst (p_workers p')))"

lemma same_pool_refl [simp]: "same_pool p p"
  by (simp add: same_pool_def)

lemma same_pool_trans: "same_pool p q \<Longrightarrow> same_pool q r \<Longrightarrow> same_pool p r"
  by (simp add: same_pool_def)

lemma addWorker_same: "addWorker env p = (e, p') \<Longrightarrow> same_pool p p'"
  using addWorker_frame unfolding same_pool_def by metis

lemma removeWorker_same: "removeWorker env p = (ok, p') \<Longrightarrow> same_pool p p'"
  using removeWorker_frame unfolding same_pool_def by metis

lemma add_workers_same:
  "add_workers env n p = (e, p') \<Longrightarrow>
    same_pool p p' \<and> length (p_workers p') \<le> length (p_workers p) + n"
proof (induction n arbitrary: p)
  case (Suc n)
  then obtain e1 p1 where add: "addWorker env p = (e1, p1)" by (cases "addWorker env p")
  note one = addWorker_same [OF add] addWorker_frame(7) [OF add]
  show ?case
  proof (cases e1)
    case None
    then have "same_pool p1 p' \<and> length (p_workers p') \<le> length (p_workers p1) + n"
      using Suc add by simp
    with one show ?thesis using same_pool_trans by fastforce
  next
    case (Some e)
    with Suc.prems add one show ?thesis by simp
  qed
qed simp

lemma add_workers_stopped: "add_workers env n p = (e, p') \<Longrightarrow> p_stopped p' = p_stopped p"
proof (induction n arbitrary: p)
  case (Suc n)
  obtain e1 p1 where add: "addWorker env p = (e1, p1)" by (cases "addWorker env p")
  with Suc addWorker_frame(5) [OF add] show ?case by (cases e1) auto
qed simp

lemma scale_up_loop_same:
  "scale_up_loop env target k added p = (n, p') \<Longrightarrow> p_len p \<le> target \<Longrightarrow>
    same_pool p p' \<and> p_len p' \<le> target \<and> int added \<le> n \<and> n \<le> int (added + k)"
proof (induction k arbitrary: added p)
  case (Suc k)
  obtain e1 p1 where add: "addWorker env p = (e1, p1)" by (cases "addWorker env p")
  note one = addWorker_same [OF add] addWorker_frame(7) [OF add]
  show ?case
  proof (cases "p_len p < target")
    case True
    then have len: "p_len p1 \<le> target" using one(2) by simp
    show ?thesis
    proof (cases e1)
      case None
      with True Suc.prems(1) add have "scale_up_loop env target k (Suc added) p1 = (n, p')" by simp
      from Suc.IH [OF this len] one(1) show ?thesis using same_pool_trans by fastforce
    qed (use True Suc.prems(1) add one len in auto)
  qed (use Suc.prems in auto)
qed auto

lemma scale_down_loop_exact:
  "scale_down_loop env target k removed p = (n, p') \<Longrightarrow> distinct (map fst (p_workers p)) \<Longrightarrow>
    0 \<le> target \<Longrightarrow> k = nat (p_len p - target) \<Longrightarrow> target \<le> p_len p \<Longrightarrow>
    same_pool p p' \<and> p_len p' = target \<and> n = int (removed + k)"
proof (induction k arbitrary: removed p)
  case (Suc k)
  then have gt: "p_len p > target" by simp
  with Suc.prems(3) have "p_workers p \<noteq> []" by auto
  then obtain p1 where rem: "removeWorker env p = (True, p1)"
    using removeWorker_frame(5) by (metis surj_pair)
  note one = removeWorker_same [OF rem] removeWorker_length [OF rem Suc.prems(2)]
  from gt rem Suc.prems(1) have "scale_down_loop env target k (Suc removed) p1 = (n, p')" by simp
  moreover have "distinct (map fst (p_workers p1))" using one(1) Suc.prems(2) by (simp add: same_pool_def)
  moreover have "k = nat (p_len p1 - target)" "target \<le> p_len p1"
    using one(2) Suc.prems(4) gt by linarith+
  ultimately have "same_pool p1 p' \<and> p_len p' = target \<and> n = int (Suc removed + k)"
    using Suc.IH [of "Suc removed" p1] Suc.prems(3) by blast
  with one(1) show ?case using same_pool_trans by auto
qed auto

lemma calculateNewSize_bounds:
  "0 < p_maxSize p \<Longrightarrow> 1 \<le> calculateNewSize p delta \<and> calculateNewSize p delta \<le> p_maxSize p"
  by (simp add: calculateNewSize_def Let_def)

lemma calculateNewSize_exact:
  "0 < p_maxSize p \<Longrightarrow> in64 (p_len p + delta) \<Longrightarrow>
    calculateNewSize p delta = min (p_maxSize p) (max 1 (p_len p + delta))"
  by (simp add: calculateNewSize_def Let_def wrap64_in64)

text \<open>\<open>Scale\<close> keeps the pool well formed; both returned counts are non-negative, and at most one
  of them is not zero.\<close>

lemma Scale_keeps:
  assumes "pool_ok p" and "Scale env delta p = ((added, removed), p')"
  shows "pool_ok p' \<and> p_ctx p' = p_ctx p \<and> p_started p' = p_started p \<and>
    0 \<le> added \<and> 0 \<le> removed \<and> (added = 0 \<or> removed = 0)"
proof (cases "p_started p \<and> delta \<noteq> 0")
  case False
  with assms show ?thesis by (auto simp: Scale_def Let_def split: if_splits)
next
  case started: True
  let ?n = "calculateNewSize p delta"
  have n: "1 \<le> ?n" "?n \<le> p_maxSize p"
    using calculateNewSize_bounds assms(1) by (auto simp: pool_ok_def)
  show ?thesis
  proof (cases "delta > 0")
    case True
    then have up: "scaleUp env ?n p = (added, p')" "removed = 0"
      using assms(2) started by (auto simp: Scale_def Let_def split: prod.splits)
    show ?thesis
    proof (cases "?n \<le> p_len p")
      case True
      with up assms(1) show ?thesis by (simp add: scaleUp_def Let_def)
    next
      case False
      then have "scale_up_loop env ?n (nat (?n - p_len p)) 0 p = (added, p')" "p_len p \<le> ?n"
        using up by (simp_all add: scaleUp_def Let_def)
      from scale_up_loop_same [OF this] up(2) assms(1) n started show ?thesis
        by (auto simp: pool_ok_def same_pool_def)
    qed
  next
    case False
    then have down: "scaleDown env ?n p = (removed, p')" "added = 0"
      using assms(2) started by (auto simp: Scale_def Let_def split: prod.splits)
    show ?thesis
    proof (cases "p_len p \<le> ?n")
      case True
      with down assms(1) show ?thesis by (simp add: scaleDown_def Let_def)
    next
      case False
      then have "scale_down_loop env ?n (nat (p_len p - ?n)) 0 p = (removed, p')"
        using down by (simp add: scaleDown_def Let_def)
      from scale_down_loop_exact [OF this] False down(2) assms(1) n started show ?thesis
        by (auto simp: pool_ok_def same_pool_def)
    qed
  qed
qed

section \<open>Scaling properties\<close>

text \<open>C26: A negative delta on a started pool leaves exactly \<open>max 1 (size + delta)\<close> workers when the
  pool had at least one, reports the difference, and never empties the pool.\<close>

theorem Scale_down_exact:
  assumes "pool_ok p" and "p_started p" and "delta < 0" and "min_int64 \<le> p_len p + delta"
    and "p_workers p \<noteq> []" and "p_len p \<le> max_int64"
  shows "\<exists>p'. Scale env delta p = ((0, p_len p - max 1 (p_len p + delta)), p') \<and>
    p_len p' = max 1 (p_len p + delta)"
proof -
  let ?n = "calculateNewSize p delta"
  have n: "?n = max 1 (p_len p + delta)"
    using calculateNewSize_exact [of p delta] assms by (auto simp: pool_ok_def in64_def)
  obtain r p' where down: "scaleDown env ?n p = (r, p')" by (cases "scaleDown env ?n p")
  have le: "?n \<le> p_len p" using n assms(3,5) by (cases "p_workers p") auto
  have "r = p_len p - ?n \<and> p_len p' = ?n"
  proof (cases "?n = p_len p")
    case True
    then show ?thesis using down by (simp add: scaleDown_def Let_def)
  next
    case False
    then have "scale_down_loop env ?n (nat (p_len p - ?n)) 0 p = (r, p')"
      using down le by (simp add: scaleDown_def Let_def)
    from scale_down_loop_exact [OF this] le n assms(1) show ?thesis by (simp add: pool_ok_def)
  qed
  then show ?thesis
    using down assms(2,3) n by (intro exI [of _ p']) (simp add: Scale_def Let_def)
qed

section \<open>Scaling up and starting with a factory that always succeeds\<close>

definition ids_ok :: "'w pool \<Rightarrow> bool" where
  "ids_ok p \<longleftrightarrow> 0 \<le> p_nextWorkerID p \<and> (\<forall>k \<in> fst ` set (p_workers p). k \<le> p_nextWorkerID p)"

definition factory_total :: "'w pool_env \<Rightarrow> bool" where
  "factory_total env \<longleftrightarrow> (\<forall>i. \<exists>w. e_create env i = Inr w)"

lemma factory_totalD: "factory_total env \<Longrightarrow> \<exists>w. e_create env i = Inr w"
  by (simp add: factory_total_def)

lemma addWorker_success:
  assumes "factory_total env" "ids_ok p" "p_nextWorkerID p < 2147483647"
  obtains p' where "addWorker env p = (None, p')" "ids_ok p'" "p_len p' = p_len p + 1"
    "p_nextWorkerID p' = p_nextWorkerID p + 1" "same_pool p p'"
proof -
  let ?i = "p_nextWorkerID p + 1"
  obtain w where w: "e_create env ?i = Inr w" using factory_totalD [OF assms(1)] by blast
  let ?p = "p\<lparr>p_nextWorkerID := ?i, p_workers := AList.update ?i (e_start env (p_ctx p) w) (p_workers p)\<rparr>"
  have id: "wrap32 ?i = ?i" using assms(2,3) by (simp add: wrap32_id ids_ok_def)
  then have add: "addWorker env p = (None, ?p)" by (simp add: addWorker_def Let_def w)
  have "?i \<notin> fst ` set (p_workers p)" using assms(2) by (auto simp: ids_ok_def)
  then have "p_len ?p = p_len p + 1" by (simp add: length_update_new)
  moreover have "ids_ok ?p" using assms(2) by (force simp: ids_ok_def dom_update)
  ultimately show thesis using that [OF add] addWorker_same [OF add] by simp
qed

lemma add_workers_total: "factory_total env \<Longrightarrow> \<exists>p'. add_workers env n p = (None, p')"
proof (induction n arbitrary: p)
  case (Suc n)
  obtain e p1 where add: "addWorker env p = (e, p1)" by (metis surj_pair)
  have "e = None" using add factory_totalD [OF Suc.prems, of "wrap32 (p_nextWorkerID p + 1)"]
    by (auto simp: addWorker_def Let_def)
  with add Suc show ?case by simp
qed simp

lemma add_workers_success:
  "factory_total env \<Longrightarrow> ids_ok p \<Longrightarrow> p_nextWorkerID p + int n \<le> 2147483647 \<Longrightarrow>
    \<exists>p'. add_workers env n p = (None, p') \<and> p_len p' = p_len p + int n \<and> same_pool p p' \<and> ids_ok p'"
proof (induction n arbitrary: p)
  case (Suc n)
  then have "p_nextWorkerID p < 2147483647" by simp
  from addWorker_success [OF Suc.prems(1,2) this] obtain p1 where p1: "addWorker env p = (None, p1)"
    "ids_ok p1" "p_len p1 = p_len p + 1" "p_nextWorkerID p1 = p_nextWorkerID p + 1" "same_pool p p1" .
  with Suc.IH [of p1] Suc.prems obtain p' where "add_workers env n p1 = (None, p')"
    "p_len p' = p_len p1 + int n" "same_pool p1 p'" "ids_ok p'" by auto
  with p1 show ?case using same_pool_trans by (intro exI [of _ p']) auto
qed simp

lemma scale_up_loop_success:
  "factory_total env \<Longrightarrow> ids_ok p \<Longrightarrow> p_nextWorkerID p + int k \<le> 2147483647 \<Longrightarrow>
    target = p_len p + int k \<Longrightarrow>
    \<exists>p'. scale_up_loop env target k added p = (int (added + k), p') \<and> p_len p' = target"
proof (induction k arbitrary: p added)
  case (Suc k)
  then have "p_nextWorkerID p < 2147483647" by simp
  from addWorker_success [OF Suc.prems(1,2) this] obtain p1 where p1: "addWorker env p = (None, p1)"
    "ids_ok p1" "p_len p1 = p_len p + 1" "p_nextWorkerID p1 = p_nextWorkerID p + 1" "same_pool p p1" .
  from Suc.IH [of p1 "Suc added"] Suc.prems p1 show ?case by simp
qed simp

text \<open>C27: With a factory that succeeds, a positive delta on a started pool brings the number of
  workers to \<open>size + delta\<close>, capped at the maximum, and reports the difference.\<close>

theorem Scale_up_exact:
  assumes "pool_ok p" and "p_started p" and "0 < delta" and "p_len p + delta \<le> max_int64"
    and "factory_total env" and "ids_ok p" and "p_nextWorkerID p + p_maxSize p \<le> 2147483647"
  shows "\<exists>p'. Scale env delta p = ((min (p_maxSize p) (p_len p + delta) - p_len p, 0), p') \<and>
    p_len p' = min (p_maxSize p) (p_len p + delta)"
proof -
  let ?n = "calculateNewSize p delta"
  have n: "?n = min (p_maxSize p) (p_len p + delta)"
    using calculateNewSize_exact [of p delta] assms(1,3,4) by (auto simp: pool_ok_def in64_def)
  have le: "p_len p \<le> ?n" "?n \<le> p_maxSize p" using n assms(1,3) by (auto simp: pool_ok_def)
  have "\<exists>p'. scaleUp env ?n p = (?n - p_len p, p') \<and> p_len p' = ?n"
  proof (cases "?n = p_len p")
    case True
    then show ?thesis by (simp add: scaleUp_def)
  next
    case False
    have "\<exists>p'. scale_up_loop env ?n (nat (?n - p_len p)) 0 p = (int (0 + nat (?n - p_len p)), p') \<and>
        p_len p' = ?n"
      by (rule scale_up_loop_success) (use assms le in \<open>auto simp: ids_ok_def\<close>)
    then show ?thesis using False le by (simp add: scaleUp_def Let_def)
  qed
  then show ?thesis using assms(2,3) n by (auto simp: Scale_def Let_def)
qed

text \<open>The size computation wraps: adding the largest \<open>int\<close> to a pool that has workers adds none,
  although there is room.\<close>

lemma Scale_overflow:
  assumes "p_started p" and "0 < p_maxSize p" and "p_workers p \<noteq> []" and "p_len p \<le> max_int64"
  shows "Scale env max_int64 p = ((0, 0), p)"
proof -
  let ?l = "p_len p"
  have l: "1 \<le> ?l" using assms(3) by (cases "p_workers p") auto
  have "wrap64 (?l + max_int64) = ?l + max_int64 - 18446744073709551616"
    by (rule wrap64_over) (use l assms(4) in linarith)+
  then have "calculateNewSize p max_int64 = 1"
    using l assms(2,4) by (simp add: calculateNewSize_def Let_def)
  with l assms(1) show ?thesis by (simp add: Scale_def scaleUp_def Let_def)
qed

section \<open>Sequences of operations\<close>

datatype pool_op = OpStart | OpStop instant | OpScale goint

fun pool_step :: "'w pool_env \<Rightarrow> 'w pool \<Rightarrow> pool_op \<Rightarrow> 'w pool" where
  "pool_step env p OpStart = snd (pool_Start env p)"
| "pool_step env p (OpStop i) = pool_Stop env i p"
| "pool_step env p (OpScale delta) = snd (Scale env delta p)"

definition pool_run :: "'w pool_env \<Rightarrow> pool_op list \<Rightarrow> 'w pool \<Rightarrow> 'w pool" where
  "pool_run env ops p = foldl (pool_step env) p ops"

text \<open>
  What the pool relies on from a worker: \<open>Start\<close> sets it running and \<open>Stop\<close> ends it.  Every
  operation then keeps the workers of the map running and the ones it removed halted.
\<close>

locale worker_lifecycle =
  fixes env :: "'w pool_env" and running :: "'w \<Rightarrow> bool"
  assumes start_runs: "e_create env i = Inr w \<Longrightarrow> running (e_start env c w)"
    and stop_halts: "running w \<Longrightarrow> \<not> running (e_stop env w)"
begin

definition live :: "'w pool \<Rightarrow> bool" where
  "live p \<longleftrightarrow> (\<forall>w \<in> snd ` set (p_workers p). running w) \<and> (\<forall>w \<in> set (p_stopped p). \<not> running w)"

lemma live_addWorker: "live p \<Longrightarrow> addWorker env p = (e, p') \<Longrightarrow> live p'"
  using update_values by (fastforce simp: live_def addWorker_def Let_def start_runs split: sum.splits)

lemma live_removeWorker:
  assumes "live p" "removeWorker env p = (ok, p')"
  shows "live p'"
proof (cases "p_workers p = []")
  case False
  let ?x = "p_workers p ! (e_pick env (p_workers p) mod length (p_workers p))"
  have "?x \<in> set (p_workers p)" using False by simp
  then have "\<not> running (e_stop env (snd ?x))" using assms(1) stop_halts by (auto simp: live_def)
  then show ?thesis
    using assms False by (auto simp: live_def removeWorker_def Let_def AList.delete_eq split: prod.splits)
qed (use assms in \<open>auto simp: removeWorker_def\<close>)

lemma live_stopAll: "live p \<Longrightarrow> live (stopAllWorkers env p)"
  using stop_halts by (auto simp: live_def stopAllWorkers_def)

lemma live_add_workers: "add_workers env n p = (e, p') \<Longrightarrow> live p \<Longrightarrow> live p'"
proof (induction n arbitrary: p)
  case (Suc n)
  obtain e1 p1 where add: "addWorker env p = (e1, p1)" by (cases "addWorker env p")
  with Suc live_addWorker [OF _ add] show ?case by (cases e1) auto
qed simp

lemma live_scale_up_loop: "scale_up_loop env target k a p = (n, p') \<Longrightarrow> live p \<Longrightarrow> live p'"
proof (induction k arbitrary: a p)
  case (Suc k)
  obtain e1 p1 where add: "addWorker env p = (e1, p1)" by (cases "addWorker env p")
  with Suc live_addWorker [OF _ add] show ?case by (cases e1) (auto split: if_splits)
qed simp

lemma live_scale_down_loop: "scale_down_loop env target k r p = (n, p') \<Longrightarrow> live p \<Longrightarrow> live p'"
proof (induction k arbitrary: r p)
  case (Suc k)
  obtain ok p1 where rem: "removeWorker env p = (ok, p1)" by (cases "removeWorker env p")
  with Suc live_removeWorker [OF _ rem] show ?case by (cases ok) (auto split: if_splits)
qed simp

lemma live_frame [simp]:
  "live (p\<lparr>p_started := b\<rparr>) = live p" "live (p\<lparr>p_ctx := c\<rparr>) = live p"
  by (simp_all add: live_def)

lemma live_step: "live p \<Longrightarrow> live (pool_step env p op)"
proof (cases op)
  case OpStart
  moreover obtain e1 p1 where "add_workers env (nat (p_size p)) p = (e1, p1)" by (metis surj_pair)
  moreover assume "live p"
  ultimately show ?thesis using live_add_workers live_stopAll
    by (cases e1) (auto simp: pool_Start_def)
next
  case (OpStop i)
  moreover assume "live p"
  ultimately show ?thesis by (simp add: pool_Stop_def live_stopAll)
next
  case (OpScale delta)
  let ?n = "calculateNewSize p delta"
  obtain a pa r pr where "scaleUp env ?n p = (a, pa)" "scaleDown env ?n p = (r, pr)"
    by (metis surj_pair)
  moreover assume "live p"
  ultimately show ?thesis using OpScale live_scale_up_loop live_scale_down_loop
    by (auto simp: Scale_def scaleUp_def scaleDown_def Let_def split: if_splits)
qed

lemma live_run: "live p \<Longrightarrow> live (pool_run env ops p)"
proof (induction ops arbitrary: p)
  case (Cons op ops)
  then show ?case using live_step by (auto simp: pool_run_def)
qed (simp add: pool_run_def)

end

text \<open>The workers of the package: the pool starts their goroutine, and their \<open>Stop\<close> ends it.\<close>

definition simple_env ::
  "(goint \<Rightarrow> go_error + ('o, 'cb) simple_worker) \<Rightarrow>
    ((goint \<times> ('o, 'cb) simple_worker) list \<Rightarrow> nat) \<Rightarrow> ('o, 'cb) simple_worker pool_env" where
  "simple_env create pick =
     \<lparr>e_create = create, e_start = (\<lambda>c. sw_Start), e_stop = sw_halt, e_pick = pick\<rparr>"

interpretation sw_life: worker_lifecycle "simple_env create pick" sw_running for create pick
  by unfold_locales (simp_all add: simple_env_def sw_Start_def sw_halt_def)

section \<open>Starting and stopping\<close>

lemma pool_Start_ok: "pool_ok p \<Longrightarrow> pool_ok (snd (pool_Start env p))"
proof -
  assume ok: "pool_ok p"
  obtain e1 p1 where add: "add_workers env (nat (p_size p)) p = (e1, p1)" by (metis surj_pair)
  from add_workers_same [OF add] add ok show ?thesis
    by (cases e1) (auto simp: pool_Start_def pool_ok_def same_pool_def stopAllWorkers_def)
qed

lemma pool_step_ok: "pool_ok p \<Longrightarrow> pool_ok (pool_step env p op)"
proof (cases op)
  case (OpScale delta)
  assume "pool_ok p"
  moreover obtain a r p' where "Scale env delta p = ((a, r), p')" by (metis surj_pair)
  ultimately show ?thesis using Scale_keeps OpScale by fastforce
next
  case (OpStop i)
  moreover assume "pool_ok p"
  ultimately show ?thesis by (simp add: pool_Stop_def stopAllWorkers_def pool_ok_def)
qed (simp add: pool_Start_ok)

lemma pool_run_ok: "pool_ok p \<Longrightarrow> pool_ok (pool_run env ops p)"
proof (induction ops arbitrary: p)
  case (Cons op ops)
  then show ?case using pool_step_ok by (auto simp: pool_run_def)
qed (simp add: pool_run_def)


text \<open>A pool of workers built the way the README does, for the witnesses.\<close>

definition sample_env :: "(nat, unit) simple_worker pool_env" where
  "sample_env = simple_env (\<lambda>i. Inr (NewSimpleWorker i None None 3 sample_world)) (\<lambda>_. 0)"

definition broken_env :: "(nat, unit) simple_worker pool_env" where
  "broken_env = simple_env
     (\<lambda>i. if i < 2 then Inr (NewSimpleWorker i None None 3 sample_world) else Inl (ErrorNew ''no''))
     (\<lambda>_. 0)"

definition sample_pool :: "(nat, unit) simple_worker pool" where
  "sample_pool = \<lparr>p_ctx = background, p_workers = [], p_size = 2, p_maxSize = 4,
     p_nextWorkerID = 0, p_started = False, p_stopped = []\<rparr>"

definition started_pool :: "(nat, unit) simple_worker pool" where
  "started_pool = snd (pool_Start sample_env sample_pool)"

lemmas sample_pool_defs =
  sample_pool_def sample_env_def broken_env_def simple_env_def pool_Start_def addWorker_def

lemma started_pool_eq:
  "started_pool = \<lparr>p_ctx = background,
     p_workers = [(1, sw_Start (NewSimpleWorker 1 None None 3 sample_world)),
                  (2, sw_Start (NewSimpleWorker 2 None None 3 sample_world))],
     p_size = 2, p_maxSize = 4, p_nextWorkerID = 2, p_started = True, p_stopped = []\<rparr>"
  by (simp add: started_pool_def sample_pool_defs numeral_nat wrap32_id)

lemma sample_pool_new: "NewPool background 2 4 = Inr sample_pool"
  by (simp add: NewPool_def sample_pool_def)

lemma sample_factory: "factory_total sample_env"
  by (simp add: factory_total_def sample_env_def simple_env_def)


theorem Scale_down_exact_witness:
  "\<exists>p'. Scale sample_env (- 5) started_pool = ((0, 1), p') \<and> p_len p' = 1"
  using Scale_down_exact [of started_pool "- 5" sample_env]
  by (simp add: started_pool_eq pool_ok_def)

theorem Scale_up_exact_witness:
  "\<exists>p'. Scale sample_env 5 started_pool = ((2, 0), p') \<and> p_len p' = 4"
  using Scale_up_exact [of started_pool 5 sample_env] sample_factory
  by (simp add: started_pool_eq pool_ok_def ids_ok_def)

text \<open>C28: Starting a stopped pool either creates \<open>size\<close> workers (always, with a factory that succeeds)
  or, when the factory fails, stops every worker created so far and leaves the pool empty and not
  started, with an error that wraps the factory's.\<close>

theorem pool_Start_correct:
  assumes "pool_ok p" and "\<not> p_started p" and "pool_Start env p = (e, p')"
  shows "pool_ok p' \<and> p_ctx p' = p_ctx p \<and>
    (e = None \<longrightarrow> p_started p' \<and> p_stopped p' = p_stopped p) \<and>
    (e \<noteq> None \<longrightarrow> \<not> p_started p' \<and> p_workers p' = [] \<and>
      (\<exists>cause p1. add_workers env (nat (p_size p)) p = (Some cause, p1) \<and>
        e = Some (Errorf ''failed to add worker: '' cause) \<and>
        p_stopped p' = p_stopped p @ map (e_stop env \<circ> snd) (p_workers p1))) \<and>
    (factory_total env \<and> ids_ok p \<and> p_nextWorkerID p + p_size p \<le> 2147483647 \<longrightarrow>
      e = None \<and> p_len p' = p_size p)"
proof -
  obtain e1 p1 where add: "add_workers env (nat (p_size p)) p = (e1, p1)" by (metis surj_pair)
  note facts = add_workers_same [OF add] add_workers_stopped [OF add]
  have empty: "p_workers p = []" "0 \<le> p_size p" using assms(1,2) by (auto simp: pool_ok_def)
  have total: "e1 = None \<and> p_len p1 = p_size p"
    if "factory_total env \<and> ids_ok p \<and> p_nextWorkerID p + p_size p \<le> 2147483647"
    using add_workers_success [of env p "nat (p_size p)"] that add empty by auto
  show ?thesis
  proof (cases e1)
    case None
    then have "e = None" "p' = p1\<lparr>p_started := True\<rparr>" using assms(2,3) add by (auto simp: pool_Start_def)
    then show ?thesis using assms(1) facts total empty by (auto simp: pool_ok_def same_pool_def)
  next
    case (Some cause)
    then have "e = Some (Errorf ''failed to add worker: '' cause)" "p' = stopAllWorkers env p1"
      using assms(2,3) add by (auto simp: pool_Start_def)
    then show ?thesis using assms(1,2) facts total Some add
      by (auto simp: pool_ok_def same_pool_def stopAllWorkers_def)
  qed
qed

text \<open>The context of a pool is cancelled by \<open>Stop\<close> and never renewed: workers of a pool that is
  started again run under a context that is already done.\<close>

lemma pool_restart_cancelled:
  assumes "p_started p" and "pool_Start env (pool_Stop env i p) = (e, p')" and "i \<le> j"
  shows "ctx_err (p_ctx p') j \<noteq> None"
proof -
  let ?q = "pool_Stop env i p"
  have "ctx_err (p_ctx ?q) j \<noteq> None"
    using assms(1,3) ctx_err_cancel_at by (simp add: pool_Stop_def stopAllWorkers_def)
  moreover obtain e1 p1 where add: "add_workers env (nat (p_size ?q)) ?q = (e1, p1)"
    by (metis surj_pair)
  moreover have "p_ctx p' = p_ctx p1"
    using assms(1,2) add by (cases e1) (auto simp: pool_Start_def pool_Stop_def stopAllWorkers_def)
  ultimately show ?thesis using add_workers_same [OF add] by (simp add: same_pool_def)
qed

theorem pool_Start_correct_witness:
  "(\<exists>p'. pool_Start sample_env sample_pool = (None, p') \<and> p_len p' = 2) \<and>
   (\<exists>e p'. pool_Start broken_env sample_pool = (Some e, p') \<and> p_workers p' = [])"
proof -
  have pool: "pool_ok sample_pool" "\<not> p_started sample_pool" "ids_ok sample_pool"
    by (simp_all add: sample_pool_def pool_ok_def ids_ok_def)
  obtain e p' where run: "pool_Start sample_env sample_pool = (e, p')" by (metis surj_pair)
  have "e = None \<and> p_len p' = 2"
    using pool_Start_correct [OF pool(1,2) run] sample_factory pool(3) by (simp add: sample_pool_def)
  moreover obtain e' q where broken: "pool_Start broken_env sample_pool = (e', q)" by (metis surj_pair)
  have "fst (pool_Start broken_env sample_pool) \<noteq> None"
    by (simp add: sample_pool_defs numeral_nat wrap32_id)
  then obtain cause where cause: "e' = Some cause" using broken by auto
  have "p_workers q = []" using pool_Start_correct [OF pool(1,2) broken] cause by simp
  ultimately show ?thesis using run broken cause by blast
qed

end
