(* ===== verification/Float64.thy ===== *)
theory Float64
  imports Prelude "HOL-Library.Log_Nat"
begin

text \<open>
  Go's \<open>float64\<close>: IEEE 754 double precision with round to nearest, ties to even, computed on the
  rationals.  The sign of a zero is not represented; the code never divides by a zero that could be
  negative, and nothing else that it does can tell the two zeros apart.

  Rounding is monotone and leaves representable values alone; every bound that the components prove
  about floating-point values rests on these two facts.
\<close>

section \<open>Rounding\<close>

text \<open>The exponent of the leading binary digit of a positive rational.\<close>

definition rexp :: "rat \<Rightarrow> int" where
  "rexp x =
     (case quotient_of x of (n, d) \<Rightarrow>
        let k = int (floorlog 2 (nat n)) - int (floorlog 2 (nat d))
        in if 2 powi k \<le> x then k else k - 1)"

definition round_even :: "rat \<Rightarrow> int" where
  "round_even x =
     (let f = \<lfloor>x\<rfloor>; r = x - of_int f
      in if r < 1 / 2 then f else if 1 / 2 < r then f + 1 else if even f then f else f + 1)"

definition grid_exp :: "rat \<Rightarrow> int" where
  "grid_exp x = max (rexp x - 52) (- 1074)"

definition rnd :: "rat \<Rightarrow> rat" where
  "rnd x = of_int (round_even (x / 2 powi grid_exp x)) * 2 powi grid_exp x"

datatype float64 = NaN | Inf bool | Fin rat

text \<open>\<open>Inf True\<close> is positive infinity.\<close>

definition f_round :: "rat \<Rightarrow> float64" where
  "f_round x =
     (if x = 0 then Fin 0
      else if 2 ^ 1024 \<le> rnd \<bar>x\<bar> then Inf (0 < x)
      else Fin (if x < 0 then - rnd \<bar>x\<bar> else rnd \<bar>x\<bar>))"

section \<open>Operations\<close>

fun f_neg :: "float64 \<Rightarrow> float64" where
  "f_neg (Fin x) = Fin (- x)"
| "f_neg (Inf s) = Inf (\<not> s)"
| "f_neg NaN = NaN"

fun f_add :: "float64 \<Rightarrow> float64 \<Rightarrow> float64" where
  "f_add (Fin x) (Fin y) = f_round (x + y)"
| "f_add (Inf s) (Fin y) = Inf s"
| "f_add (Fin x) (Inf t) = Inf t"
| "f_add (Inf s) (Inf t) = (if s = t then Inf s else NaN)"
| "f_add _ _ = NaN"

definition f_sub :: "float64 \<Rightarrow> float64 \<Rightarrow> float64" where
  "f_sub x y = f_add x (f_neg y)"

fun f_mult :: "float64 \<Rightarrow> float64 \<Rightarrow> float64" where
  "f_mult (Fin x) (Fin y) = f_round (x * y)"
| "f_mult (Inf s) (Fin y) = (if y = 0 then NaN else Inf (s = (0 < y)))"
| "f_mult (Fin x) (Inf t) = (if x = 0 then NaN else Inf (t = (0 < x)))"
| "f_mult (Inf s) (Inf t) = Inf (s = t)"
| "f_mult _ _ = NaN"

fun f_div :: "float64 \<Rightarrow> float64 \<Rightarrow> float64" where
  "f_div (Fin x) (Fin y) =
     (if y = 0 then (if x = 0 then NaN else Inf (0 < x)) else f_round (x / y))"
| "f_div (Inf s) (Fin y) = Inf (s = (0 \<le> y))"
| "f_div (Fin x) (Inf t) = Fin 0"
| "f_div _ _ = NaN"

fun f_lt :: "float64 \<Rightarrow> float64 \<Rightarrow> bool" where
  "f_lt (Fin x) (Fin y) \<longleftrightarrow> x < y"
| "f_lt (Inf s) (Fin y) \<longleftrightarrow> \<not> s"
| "f_lt (Fin x) (Inf t) \<longleftrightarrow> t"
| "f_lt (Inf s) (Inf t) \<longleftrightarrow> \<not> s \<and> t"
| "f_lt _ _ \<longleftrightarrow> False"

fun f_le :: "float64 \<Rightarrow> float64 \<Rightarrow> bool" where
  "f_le (Fin x) (Fin y) \<longleftrightarrow> x \<le> y"
| "f_le (Inf s) (Fin y) \<longleftrightarrow> \<not> s"
| "f_le (Fin x) (Inf t) \<longleftrightarrow> t"
| "f_le (Inf s) (Inf t) \<longleftrightarrow> s \<longrightarrow> t"
| "f_le _ _ \<longleftrightarrow> False"

text \<open>Conversions.  \<open>int(x)\<close> truncates; out of range it gives what amd64's conversion instruction
  gives, the least \<open>int64\<close>.\<close>

definition f_of_int :: "int \<Rightarrow> float64" where
  "f_of_int z = f_round (of_int z)"

definition f_trunc :: "rat \<Rightarrow> int" where
  "f_trunc x = (if x < 0 then \<lceil>x\<rceil> else \<lfloor>x\<rfloor>)"

fun f_to_int :: "float64 \<Rightarrow> goint" where
  "f_to_int (Fin x) = (if in64 (f_trunc x) then f_trunc x else min_int64)"
| "f_to_int _ = min_int64"

text \<open>\<open>math.Pow(2, k)\<close> for an integer \<open>k \<ge> 0\<close>: exact until it overflows.\<close>

definition f_pow2 :: "nat \<Rightarrow> float64" where
  "f_pow2 k = f_round (2 ^ k)"

section \<open>Facts about rounding\<close>

lemma rexp_bounds:
  assumes "0 < x"
  shows "2 powi rexp x \<le> x" and "x < 2 powi (rexp x + 1)"
proof -
  obtain n d where q: "quotient_of x = (n, d)" by fastforce
  have d: "0 < d" and x: "x = of_int n / of_int d"
    using quotient_of_denom_pos [OF q] quotient_of_div [OF q] by auto
  then have n: "0 < n" using assms by (simp add: zero_less_divide_iff)
  let ?a = "floorlog 2 (nat n)" and ?b = "floorlog 2 (nat d)"
  have bounds: "2 ^ (floorlog 2 (nat m) - 1) \<le> (of_int m :: rat) \<and> (of_int m :: rat) < 2 ^ floorlog 2 (nat m) \<and>
      0 < floorlog 2 (nat m)" if "0 < m" for m :: int
  proof -
    have "2 ^ (floorlog 2 (nat m) - 1) \<le> nat m \<and> nat m < 2 ^ floorlog 2 (nat m)"
      using floorlog_bounds [of "nat m" 2] that by simp
    moreover have "(of_int m :: rat) = of_nat (nat m)" using that by simp
    moreover have "0 < floorlog 2 (nat m)" using that by (simp add: floorlog_def)
    ultimately show ?thesis by (metis of_nat_le_iff of_nat_less_iff of_nat_numeral of_nat_power)
  qed
  note N = bounds [OF n] and D = bounds [OF d]
  define k where "k = int ?a - int ?b"
  have up: "x < 2 powi (k + 1)"
  proof -
    have "x < 2 ^ ?a / 2 ^ (?b - 1)"
      unfolding x using N D n by (intro frac_less) auto
    also have "(2::rat) ^ ?a / 2 ^ (?b - 1) = 2 powi (int ?a - int (?b - 1))"
      by (simp add: power_int_diff)
    also have "int ?a - int (?b - 1) = k + 1" using D by (simp add: k_def)
    finally show ?thesis .
  qed
  have low: "2 powi (k - 1) \<le> x"
  proof -
    have "(2::rat) powi (k - 1) = 2 powi (int (?a - 1) - int ?b)" using N by (simp add: k_def of_nat_diff algebra_simps)
    also have "\<dots> = 2 ^ (?a - 1) / 2 ^ ?b" by (simp add: power_int_diff)
    also have "\<dots> \<le> x" unfolding x using N D d n by (intro frac_le) auto
    finally show ?thesis .
  qed
  have "rexp x = (if 2 powi k \<le> x then k else k - 1)"
    by (simp add: rexp_def q k_def Let_def)
  then show "2 powi rexp x \<le> x" "x < 2 powi (rexp x + 1)" using up low by auto
qed

lemma powi_two_less: "(2::rat) powi a < 2 powi b \<longleftrightarrow> a < b"
  using power_int_strict_increasing [of a b "2::rat"] power_int_increasing [of b a "2::rat"]
  by (meson leD le_less_linear one_le_numeral one_less_numeral_iff semiring_norm(76))

lemma powi_two_pos [simp]: "0 < (2::rat) powi a"
  by simp

lemma rexp_unique:
  assumes "2 powi k \<le> x" "x < 2 powi (k + 1)"
  shows "rexp x = k"
proof -
  have "0 < x" using assms(1) powi_two_pos less_le_trans by blast
  note r = rexp_bounds [OF this]
  have "(2::rat) powi k < 2 powi (rexp x + 1)" "(2::rat) powi rexp x < 2 powi (k + 1)"
    using assms r by linarith+
  then show ?thesis unfolding powi_two_less by simp
qed

lemma rexp_mono: "0 < x \<Longrightarrow> x \<le> y \<Longrightarrow> rexp x \<le> rexp y"
proof -
  assume "0 < x" "x \<le> y"
  then have "(2::rat) powi rexp x < 2 powi (rexp y + 1)"
    using rexp_bounds [of x] rexp_bounds [of y] by linarith
  then show ?thesis unfolding powi_two_less by simp
qed

lemma round_even_int [simp]: "round_even (of_int z) = z"
  by (simp add: round_even_def)

lemma round_even_bounds: "\<lfloor>x\<rfloor> \<le> round_even x" "round_even x \<le> \<lfloor>x\<rfloor> + 1"
  by (auto simp: round_even_def Let_def)

lemma round_even_mono: "x \<le> y \<Longrightarrow> round_even x \<le> round_even y"
proof -
  assume le: "x \<le> y"
  then have fl: "\<lfloor>x\<rfloor> \<le> \<lfloor>y\<rfloor>" by (rule floor_mono)
  show ?thesis
  proof (cases "\<lfloor>x\<rfloor> = \<lfloor>y\<rfloor>")
    case True
    with le show ?thesis by (auto simp: round_even_def Let_def)
  next
    case False
    with fl show ?thesis using round_even_bounds [of x] round_even_bounds [of y] by linarith
  qed
qed

lemma round_even_le_int: "x \<le> of_int z \<Longrightarrow> round_even x \<le> z"
  using round_even_mono [of x "of_int z"] by simp

lemma int_le_round_even: "of_int z \<le> x \<Longrightarrow> z \<le> round_even x"
  using round_even_mono [of "of_int z" x] by simp

lemma rnd_nonneg: "0 \<le> x \<Longrightarrow> 0 \<le> rnd x"
  using int_le_round_even [of 0 "x / 2 powi grid_exp x"] by (simp add: rnd_def)

text \<open>A power of two on the grid of \<open>x\<close> bounds the rounded value.\<close>

lemma rnd_le_grid:
  assumes "x \<le> of_int m * 2 powi e" "grid_exp x \<le> e"
  shows "rnd x \<le> of_int m * 2 powi e"
proof -
  let ?g = "grid_exp x"
  have split: "of_int m * (2::rat) powi e = of_int (m * 2 ^ nat (e - ?g)) * 2 powi ?g"
  proof -
    have "(2::rat) powi e = 2 powi (e - ?g) * 2 powi ?g" by (simp flip: power_int_add)
    then show ?thesis using assms(2) by (simp add: power_int_def)
  qed
  have "x / 2 powi ?g \<le> of_int (m * 2 ^ nat (e - ?g))"
    using assms(1) by (simp only: split) (simp add: divide_le_eq)
  then have "round_even (x / 2 powi ?g) \<le> m * 2 ^ nat (e - ?g)" by (rule round_even_le_int)
  then show ?thesis unfolding rnd_def split
    by (intro mult_right_mono) (simp_all only: of_int_le_iff less_imp_le [OF powi_two_pos])
qed

lemma grid_le_rnd:
  assumes "of_int m * 2 powi e \<le> x" "grid_exp x \<le> e"
  shows "of_int m * 2 powi e \<le> rnd x"
proof -
  let ?g = "grid_exp x"
  have split: "of_int m * (2::rat) powi e = of_int (m * 2 ^ nat (e - ?g)) * 2 powi ?g"
  proof -
    have "(2::rat) powi e = 2 powi (e - ?g) * 2 powi ?g" by (simp flip: power_int_add)
    then show ?thesis using assms(2) by (simp add: power_int_def)
  qed
  have "of_int (m * 2 ^ nat (e - ?g)) \<le> x / 2 powi ?g"
    using assms(1) by (simp only: split) (simp add: le_divide_eq)
  then have "m * 2 ^ nat (e - ?g) \<le> round_even (x / 2 powi ?g)" by (rule int_le_round_even)
  then show ?thesis unfolding rnd_def split
    by (intro mult_right_mono) (simp_all only: of_int_le_iff less_imp_le [OF powi_two_pos])
qed

text \<open>Rounding is monotone.\<close>

lemma rnd_mono:
  assumes "0 < x" "x \<le> y"
  shows "rnd x \<le> rnd y"
proof (cases "grid_exp x = grid_exp y")
  case True
  have "x / 2 powi grid_exp x \<le> y / 2 powi grid_exp x" using assms(2) by (simp add: divide_right_mono)
  then have "round_even (x / 2 powi grid_exp x) \<le> round_even (y / 2 powi grid_exp x)"
    by (rule round_even_mono)
  then show ?thesis unfolding rnd_def True [symmetric] by (simp add: mult_right_mono)
next
  case False
  let ?k = "rexp y"
  have "rexp x < ?k" "grid_exp x < grid_exp y"
    using False rexp_mono [OF assms] by (auto simp: grid_exp_def)
  then have grid: "grid_exp y \<le> ?k" "grid_exp x \<le> ?k" by (auto simp: grid_exp_def)
  have "(2::rat) powi (rexp x + 1) \<le> 2 powi ?k"
    using \<open>rexp x < ?k\<close> by (intro power_int_increasing) auto
  then have "x \<le> 2 powi ?k" "2 powi ?k \<le> y"
    using rexp_bounds [OF assms(1)] rexp_bounds [of y] assms by linarith+
  then show ?thesis using rnd_le_grid [of x 1 ?k] grid_le_rnd [of 1 ?k y] grid by simp
qed

text \<open>Representable values are exact.\<close>

lemma rnd_exact:
  assumes "0 < m" "m < 2 ^ 53" "- 1074 \<le> e"
  shows "rnd (of_int m * 2 powi e) = of_int m * 2 powi e"
proof -
  let ?x = "of_int m * (2::rat) powi e"
  have pos: "0 < ?x" using assms(1) by simp
  have "of_int m < (2::rat) ^ 53" using assms(2) by (metis of_int_less_iff of_int_numeral of_int_power)
  then have "?x < 2 powi (e + 53)" by (simp add: power_int_add)
  then have "(2::rat) powi rexp ?x < 2 powi (e + 53)" using rexp_bounds(1) [OF pos] by linarith
  then have "grid_exp ?x \<le> e" using assms(3) unfolding powi_two_less by (simp add: grid_exp_def)
  then show ?thesis using rnd_le_grid [of ?x m e] grid_le_rnd [of m e ?x] by simp
qed

lemma rnd_int_exact:
  assumes "0 < m" "m \<le> 2 ^ 53"
  shows "rnd (of_int m) = of_int m"
proof (cases "m = 2 ^ 53")
  case True
  then show ?thesis using rnd_exact [of 1 53] by (simp add: power_int_def)
next
  case False
  then show ?thesis using rnd_exact [of m 0] assms by simp
qed

text \<open>What the components use: conversion of small integers is exact, and a value between two small
  integers stays between them.\<close>

lemma two_powers: "(2::rat) ^ 53 < 2 ^ 1024"
  by (rule power_strict_increasing) simp_all

lemma f_of_int_exact:
  assumes "\<bar>z\<bar> \<le> 2 ^ 53"
  shows "f_of_int z = Fin (of_int z)"
proof (cases "z = 0")
  case False
  have abs: "\<bar>of_int z :: rat\<bar> = of_int \<bar>z\<bar>" by simp
  have "rnd (of_int \<bar>z\<bar>) = of_int \<bar>z\<bar>" using rnd_int_exact [of "\<bar>z\<bar>"] False assms by simp
  moreover have "(of_int \<bar>z\<bar> :: rat) \<le> 2 ^ 53"
    using assms by (metis of_int_le_iff of_int_numeral of_int_power)
  ultimately show ?thesis
    using False two_powers unfolding f_of_int_def f_round_def abs by auto
qed (simp add: f_of_int_def f_round_def)

lemma f_round_le_int:
  assumes "0 \<le> x" "x \<le> of_int m" "0 < m" "m \<le> 2 ^ 53"
  obtains v where "f_round x = Fin v" "0 \<le> v" "v \<le> of_int m"
proof (cases "x = 0")
  case True
  then show thesis using that [of 0] assms by (simp add: f_round_def)
next
  case False
  have "rnd x \<le> of_int m" using rnd_mono [of x "of_int m"] rnd_int_exact assms False by simp
  moreover have "(of_int m :: rat) \<le> 2 ^ 53"
    using assms(4) by (metis of_int_le_iff of_int_numeral of_int_power)
  moreover have "0 \<le> rnd x" using assms(1) by (rule rnd_nonneg)
  ultimately show thesis
    using that [of "rnd x"] two_powers False assms(1) by (simp add: f_round_def)
qed

lemma f_round_ge_int:
  assumes "of_int m \<le> x" "0 < m" "m \<le> 2 ^ 53"
  shows "f_round x = Inf True \<or> (\<exists>v \<ge> of_int m. f_round x = Fin v)"
proof -
  have "0 < (of_int m :: rat)" using assms(2) by simp
  then have x: "0 < x" using assms(1) by linarith
  have "of_int m \<le> rnd x" using rnd_mono [of "of_int m" x] rnd_int_exact assms by simp
  then show ?thesis using x by (simp add: f_round_def)
qed

lemma f_round_exact:
  assumes "0 < m" "m < 2 ^ 53" "- 1074 \<le> e" "e \<le> 970"
  shows "f_round (of_int m * 2 powi e) = Fin (of_int m * 2 powi e)"
proof -
  let ?x = "of_int m * (2::rat) powi e"
  have pos: "0 < ?x" using assms(1) by simp
  have "of_int m < (2::rat) ^ 53" using assms(2) by (metis of_int_less_iff of_int_numeral of_int_power)
  then have "?x < 2 ^ 53 * 2 powi e" by simp
  also have "\<dots> = 2 powi (53 + e)" by (simp add: power_int_add)
  also have "\<dots> \<le> 2 powi 1023" using assms(4) by (intro power_int_increasing) auto
  also have "\<dots> < 2 ^ 1024" by (simp add: power_int_def)
  finally show ?thesis using rnd_exact [OF assms(1-3)] pos by (simp add: f_round_def)
qed

lemma f_pow2_exact: "k \<le> 970 \<Longrightarrow> f_pow2 k = Fin (2 ^ k)"
  using f_round_exact [of 1 "int k"] by (simp add: f_pow2_def power_int_def)

lemma f_le_of_lt: "f_lt x y \<Longrightarrow> f_le x y"
  by (cases "(x, y)" rule: f_lt.cases) auto

lemma f_lt_irrefl [simp]: "\<not> f_lt x x"
  by (cases x) auto

lemma f_NaN_compare [simp]: "\<not> f_lt NaN x" "\<not> f_lt x NaN" "\<not> f_le NaN x" "\<not> f_le x NaN"
  by (cases x; simp)+

lemma f_not_le_lt: "\<not> f_le x y \<longleftrightarrow> f_lt y x \<or> x = NaN \<or> y = NaN"
  by (cases "(x, y)" rule: f_lt.cases) auto

lemma f_le_trans: "f_le x y \<Longrightarrow> f_le y z \<Longrightarrow> f_le x z"
  by (cases x; cases y; cases z) auto

end
