(* ===== verification/Config.thy ===== *)
theory Config
  imports Errors Float64
begin

text \<open>
  The configuration of a manager (\<open>pkg/manager/config.go\<close>): the record, its defaults, validation as a
  chain of checks of which the first failing one wins, and the options.  The comparisons are Go's on
  \<open>float64\<close>: every comparison with a NaN is false.
\<close>

section \<open>The record\<close>

record config =
  InitialWorkers :: goint
  MaxWorkers :: goint
  MinWorkers :: goint
  MaxTasksInQueue :: goint
  ScaleUpFactor :: float64
  ScaleDownFactor :: float64
  ScaleUpDelay :: duration
  MaxConsecutiveScales :: goint
  MinSuccessfulBatches :: goint
  LowMemoryMark :: float64
  HighMemoryMark :: float64
  ForceGCThreshold :: float64
  MonitorInterval :: duration
  MinCleanupInterval :: duration
  TaskTimeout :: duration
  TargetCPUPercent :: float64
  TargetMemoryPercent :: float64
  Verbose :: bool

definition DefaultConfig :: config where
  "DefaultConfig =
     \<lparr>InitialWorkers = 4, MaxWorkers = 32, MinWorkers = 1, MaxTasksInQueue = 1000,
      ScaleUpFactor = Fin (3 / 2), ScaleDownFactor = Fin (1 / 2), ScaleUpDelay = 30 * second,
      MaxConsecutiveScales = 3, MinSuccessfulBatches = 2,
      LowMemoryMark = Fin 30, HighMemoryMark = Fin 70, ForceGCThreshold = Fin 80,
      MonitorInterval = 5 * second, MinCleanupInterval = 60 * second, TaskTimeout = 30 * second,
      TargetCPUPercent = Fin 70, TargetMemoryPercent = Fin 60, Verbose = False\<rparr>"

section \<open>Validation\<close>

definition validateWorkerCounts :: "config \<Rightarrow> go_error option" where
  "validateWorkerCounts c = first_error
     [(InitialWorkers c \<le> 0, ErrorNew ''initial workers must be greater than 0''),
      (MaxWorkers c \<le> 0, ErrorNew ''max workers must be greater than 0''),
      (MinWorkers c \<le> 0, ErrorNew ''min workers must be greater than 0''),
      (MinWorkers c > MaxWorkers c, ErrorNew ''min workers cannot be greater than max workers''),
      (InitialWorkers c < MinWorkers c \<or> InitialWorkers c > MaxWorkers c,
       ErrorNew ''initial workers must be between min and max workers'')]"

definition validateScalingFactors :: "config \<Rightarrow> go_error option" where
  "validateScalingFactors c = first_error
     [(f_lt (ScaleUpFactor c) (Fin 1), ErrorNew ''scale up factor must be at least 1.0''),
      (f_lt (Fin 1) (ScaleDownFactor c) \<or> f_le (ScaleDownFactor c) (Fin 0),
       ErrorNew ''scale down factor must be between 0 and 1.0'')]"

definition validateMemorySettings :: "config \<Rightarrow> go_error option" where
  "validateMemorySettings c = first_error
     [(f_lt (LowMemoryMark c) (Fin 0) \<or> f_lt (Fin 100) (LowMemoryMark c),
       ErrorNew ''low memory mark must be between 0 and 100''),
      (f_lt (HighMemoryMark c) (Fin 0) \<or> f_lt (Fin 100) (HighMemoryMark c),
       ErrorNew ''high memory mark must be between 0 and 100''),
      (f_le (HighMemoryMark c) (LowMemoryMark c),
       ErrorNew ''low memory mark must be less than high memory mark'')]"

definition Validate :: "config \<Rightarrow> go_error option" where
  "Validate c =
     (case validateWorkerCounts c of
        Some e \<Rightarrow> Some e
      | None \<Rightarrow>
          (case validateScalingFactors c of
             Some e \<Rightarrow> Some e
           | None \<Rightarrow> validateMemorySettings c))"

section \<open>Options\<close>

type_synonym config_option = "config \<Rightarrow> config"

definition WithInitialWorkers :: "goint \<Rightarrow> config_option" where
  "WithInitialWorkers n c = c\<lparr>InitialWorkers := n\<rparr>"

definition WithMaxWorkers :: "goint \<Rightarrow> config_option" where
  "WithMaxWorkers n c = c\<lparr>MaxWorkers := n\<rparr>"

definition WithMinWorkers :: "goint \<Rightarrow> config_option" where
  "WithMinWorkers n c = c\<lparr>MinWorkers := n\<rparr>"

definition WithMaxTasksInQueue :: "goint \<Rightarrow> config_option" where
  "WithMaxTasksInQueue n c = c\<lparr>MaxTasksInQueue := n\<rparr>"

definition WithScaleFactors :: "float64 \<Rightarrow> float64 \<Rightarrow> config_option" where
  "WithScaleFactors up down c = c\<lparr>ScaleUpFactor := up, ScaleDownFactor := down\<rparr>"

definition WithMemoryWatermarks :: "float64 \<Rightarrow> float64 \<Rightarrow> config_option" where
  "WithMemoryWatermarks low high c = c\<lparr>LowMemoryMark := low, HighMemoryMark := high\<rparr>"

definition WithMonitorInterval :: "duration \<Rightarrow> config_option" where
  "WithMonitorInterval d c = c\<lparr>MonitorInterval := d\<rparr>"

definition WithTaskTimeout :: "duration \<Rightarrow> config_option" where
  "WithTaskTimeout d c = c\<lparr>TaskTimeout := d\<rparr>"

definition WithScaleUpDelay :: "duration \<Rightarrow> config_option" where
  "WithScaleUpDelay d c = c\<lparr>ScaleUpDelay := d\<rparr>"

definition WithForceGCThreshold :: "float64 \<Rightarrow> config_option" where
  "WithForceGCThreshold threshold c = c\<lparr>ForceGCThreshold := threshold\<rparr>"

definition WithVerbose :: "bool \<Rightarrow> config_option" where
  "WithVerbose verbose c = c\<lparr>Verbose := verbose\<rparr>"

definition ConfigWithOptions :: "config_option list \<Rightarrow> config" where
  "ConfigWithOptions opts = foldl (\<lambda>cfg opt. opt cfg) DefaultConfig opts"

lemmas option_defs =
  WithInitialWorkers_def WithMaxWorkers_def WithMinWorkers_def WithMaxTasksInQueue_def
  WithScaleFactors_def WithMemoryWatermarks_def WithMonitorInterval_def WithTaskTimeout_def
  WithScaleUpDelay_def WithForceGCThreshold_def WithVerbose_def

lemmas validate_defs =
  Validate_def validateWorkerCounts_def validateScalingFactors_def validateMemorySettings_def

section \<open>What validation promises\<close>

text \<open>A percentage is a number from 0 to 100, or a NaN, which no comparison rejects.\<close>

definition percent_or_nan :: "float64 \<Rightarrow> bool" where
  "percent_or_nan x \<longleftrightarrow> x = NaN \<or> (f_le (Fin 0) x \<and> f_le x (Fin 100))"

lemma percent_or_nan_iff: "percent_or_nan x \<longleftrightarrow> \<not> f_lt x (Fin 0) \<and> \<not> f_lt (Fin 100) x"
  by (cases x) (auto simp: percent_or_nan_def)

lemma Validate_None_iff:
  "Validate c = None \<longleftrightarrow> validateWorkerCounts c = None \<and> validateScalingFactors c = None \<and>
     validateMemorySettings c = None"
  by (auto simp: Validate_def split: option.splits)

lemma Validate_workers:
  "Validate c = None \<Longrightarrow> 1 \<le> MinWorkers c \<and> MinWorkers c \<le> InitialWorkers c \<and> InitialWorkers c \<le> MaxWorkers c"
  by (auto simp: validate_defs split: option.splits if_splits)

lemma Validate_scale_up: "Validate c = None \<Longrightarrow> \<not> f_lt (ScaleUpFactor c) (Fin 1)"
  by (auto simp: validate_defs split: option.splits if_splits)

section \<open>Properties\<close>

text \<open>C34: \<open>Validate\<close> accepts exactly the configurations with \<open>1 \<le> min \<le> initial \<le> max\<close> workers, a
  scale-up factor of at least one, a scale-down factor in \<open>(0, 1]\<close> and watermarks with
  \<open>0 \<le> low < high \<le> 100\<close>, where any of the four floating-point settings may also be a NaN.\<close>

theorem Validate_correct:
  "Validate c = None \<longleftrightarrow>
    1 \<le> MinWorkers c \<and> MinWorkers c \<le> InitialWorkers c \<and> InitialWorkers c \<le> MaxWorkers c \<and>
    (f_le (Fin 1) (ScaleUpFactor c) \<or> ScaleUpFactor c = NaN) \<and>
    ((f_lt (Fin 0) (ScaleDownFactor c) \<and> f_le (ScaleDownFactor c) (Fin 1)) \<or> ScaleDownFactor c = NaN) \<and>
    percent_or_nan (LowMemoryMark c) \<and> percent_or_nan (HighMemoryMark c) \<and>
    (f_lt (LowMemoryMark c) (HighMemoryMark c) \<or> LowMemoryMark c = NaN \<or> HighMemoryMark c = NaN)"
proof -
  have up: "\<not> f_lt x (Fin 1) \<longleftrightarrow> f_le (Fin 1) x \<or> x = NaN" for x by (cases x) auto
  have down: "\<not> (f_lt (Fin 1) x \<or> f_le x (Fin 0)) \<longleftrightarrow>
      (f_lt (Fin 0) x \<and> f_le x (Fin 1)) \<or> x = NaN" for x by (cases x) auto
  have "validateWorkerCounts c = None \<longleftrightarrow>
      1 \<le> MinWorkers c \<and> MinWorkers c \<le> InitialWorkers c \<and> InitialWorkers c \<le> MaxWorkers c"
    by (auto simp: validateWorkerCounts_def)
  moreover have "validateScalingFactors c = None \<longleftrightarrow> \<not> f_lt (ScaleUpFactor c) (Fin 1) \<and>
      \<not> (f_lt (Fin 1) (ScaleDownFactor c) \<or> f_le (ScaleDownFactor c) (Fin 0))"
    by (simp add: validateScalingFactors_def)
  moreover have "validateMemorySettings c = None \<longleftrightarrow>
      percent_or_nan (LowMemoryMark c) \<and> percent_or_nan (HighMemoryMark c) \<and>
      \<not> f_le (HighMemoryMark c) (LowMemoryMark c)"
    by (auto simp: validateMemorySettings_def percent_or_nan_iff)
  ultimately show ?thesis
    unfolding Validate_None_iff up down f_not_le_lt by blast
qed

text \<open>The options that \<open>Validate\<close> never looks at.\<close>

inductive_set free_options :: "config_option set" where
  "WithMaxTasksInQueue n \<in> free_options"
| "WithMonitorInterval d \<in> free_options"
| "WithTaskTimeout d \<in> free_options"
| "WithScaleUpDelay d \<in> free_options"
| "WithForceGCThreshold x \<in> free_options"
| "WithVerbose b \<in> free_options"

lemma free_option_Validate: "opt \<in> free_options \<Longrightarrow> Validate (opt c) = Validate c"
  by (erule free_options.cases) (simp_all add: option_defs validate_defs)

lemma foldl_free_Validate:
  "set opts \<subseteq> free_options \<Longrightarrow> Validate (foldl (\<lambda>cfg opt. opt cfg) c opts) = Validate c"
  by (induction opts arbitrary: c) (auto simp: free_option_Validate)

lemma Validate_DefaultConfig: "Validate DefaultConfig = None"
  by (simp add: DefaultConfig_def validate_defs)

text \<open>The defaults are valid, and so is every configuration built from them with the options that
  set a task limit, an interval, a timeout, a delay, the GC threshold or verbosity, whatever their
  arguments: a negative queue size or monitoring interval passes validation.\<close>

lemma ConfigWithOptions_valid:
  assumes "set opts \<subseteq> free_options"
  shows "Validate (ConfigWithOptions opts) = None"
  using foldl_free_Validate [OF assms, of DefaultConfig] Validate_DefaultConfig
  by (simp add: ConfigWithOptions_def)

end
