(* ===== verification/Metrics.thy ===== *)
theory Metrics
  imports Runtime Float64
begin

text \<open>
  System statistics (\<open>internal/utils/metrics.go\<close>) and the secure random integers of
  \<open>internal/utils/random.go\<close>.

  What \<open>runtime.ReadMemStats\<close> fills in is an argument, the record \<open>rt_mem\<close> with the fields that the
  code reads; so is the number of goroutines.  Slicing an empty history panics, which the update
  returns as \<open>None\<close>; it only happens with a history limit that is not positive.
\<close>

section \<open>Readings\<close>

record rt_mem =
  rt_Alloc :: int
  rt_Sys :: int
  rt_LastGC :: int
  rt_NumGC :: int
  rt_PauseNs :: "nat \<Rightarrow> int"
  rt_HeapObjects :: int
  rt_HeapInuse :: int
  rt_StackInuse :: int
  rt_MSpanInuse :: int
  rt_MCacheInuse :: int
  rt_BuckHashSys :: int
  rt_GCSys :: int
  rt_OtherSys :: int
  rt_NextGC :: int
  rt_TotalAlloc :: int
  rt_Mallocs :: int
  rt_Frees :: int
  rt_PauseTotalNs :: int

datatype gc_time = ZeroTime | UnixNano int | ClockNow instant

record mem_stats =
  UsagePercent :: float64
  AllocatedBytes :: int
  SystemBytes :: int
  GCPauseTimeNs :: int
  LastGCTime :: gc_time
  NumGC :: int
  LastCollectionMs :: float64
  HeapObjects :: int
  HeapInUseBytes :: int
  StackInUseBytes :: int
  MSpanInUseBytes :: int
  MCacheInUseBytes :: int
  BuckHashSysBytes :: int
  GCSysBytes :: int
  OtherSysBytes :: int
  NextGCSizeBytes :: int
  LastSampleTime :: "instant option"
  TotalAllocBytes :: int
  TotalAllocsCount :: int
  TotalFreesCount :: int
  PauseTotalNs :: int

definition zero_mem_stats :: mem_stats where
  "zero_mem_stats =
     \<lparr>UsagePercent = Fin 0, AllocatedBytes = 0, SystemBytes = 0, GCPauseTimeNs = 0,
      LastGCTime = ZeroTime, NumGC = 0, LastCollectionMs = Fin 0, HeapObjects = 0,
      HeapInUseBytes = 0, StackInUseBytes = 0, MSpanInUseBytes = 0, MCacheInUseBytes = 0,
      BuckHashSysBytes = 0, GCSysBytes = 0, OtherSysBytes = 0, NextGCSizeBytes = 0,
      LastSampleTime = None, TotalAllocBytes = 0, TotalAllocsCount = 0, TotalFreesCount = 0,
      PauseTotalNs = 0\<rparr>"

record system_stats =
  CPUUsage :: float64
  MemoryStats :: mem_stats
  NumGoroutine :: goint
  LastUpdate :: instant
  MemoryHistory :: "mem_stats list"
  GoroutineHistory :: "goint list"
  MaxHistoryEntries :: goint

definition NewSystemStats :: "instant \<Rightarrow> system_stats" where
  "NewSystemStats i =
     \<lparr>CPUUsage = Fin 0, MemoryStats = zero_mem_stats, NumGoroutine = 0, LastUpdate = i,
      MemoryHistory = [], GoroutineHistory = [], MaxHistoryEntries = 100\<rparr>"

section \<open>Updating\<close>

definition usage_percent :: "rt_mem \<Rightarrow> float64" where
  "usage_percent ms = f_mult (f_div (f_of_int (rt_Alloc ms)) (f_of_int (rt_Sys ms))) (f_of_int 100)"

definition last_gc_time :: "rt_mem \<Rightarrow> instant \<Rightarrow> gc_time" where
  "last_gc_time ms i =
     (if rt_LastGC ms > 0
      then (if rt_LastGC ms \<le> max_int64 then UnixNano (rt_LastGC ms) else ClockNow i)
      else ZeroTime)"

definition snapshot :: "rt_mem \<Rightarrow> instant \<Rightarrow> mem_stats" where
  "snapshot ms i =
     (let pause = rt_PauseNs ms (nat (((rt_NumGC ms + 255) mod 2 ^ 32) mod 256))
      in \<lparr>UsagePercent = usage_percent ms, AllocatedBytes = rt_Alloc ms, SystemBytes = rt_Sys ms,
          GCPauseTimeNs = pause, LastGCTime = last_gc_time ms i, NumGC = rt_NumGC ms,
          LastCollectionMs = (if rt_NumGC ms > 0 then f_div (f_of_int pause) (f_of_int 1000000) else Fin 0),
          HeapObjects = rt_HeapObjects ms, HeapInUseBytes = rt_HeapInuse ms,
          StackInUseBytes = rt_StackInuse ms, MSpanInUseBytes = rt_MSpanInuse ms,
          MCacheInUseBytes = rt_MCacheInuse ms, BuckHashSysBytes = rt_BuckHashSys ms,
          GCSysBytes = rt_GCSys ms, OtherSysBytes = rt_OtherSys ms, NextGCSizeBytes = rt_NextGC ms,
          LastSampleTime = Some i, TotalAllocBytes = rt_TotalAlloc ms,
          TotalAllocsCount = rt_Mallocs ms, TotalFreesCount = rt_Frees ms,
          PauseTotalNs = rt_PauseTotalNs ms\<rparr>)"

text \<open>Append to a history with a cap; \<open>None\<close> is the panic of \<open>h[1:]\<close> on an empty slice.\<close>

fun push_capped :: "goint \<Rightarrow> 'a list \<Rightarrow> 'a \<Rightarrow> 'a list option" where
  "push_capped cap h x =
     (if int (length h) \<ge> cap
      then (case h of [] \<Rightarrow> None | y # ys \<Rightarrow> Some (ys @ [x]))
      else Some (h @ [x]))"

definition UpdateMemStats :: "rt_mem \<Rightarrow> goint \<Rightarrow> instant \<Rightarrow> system_stats \<Rightarrow> system_stats option" where
  "UpdateMemStats ms goroutines i s =
     (let cur = snapshot ms i
      in case push_capped (MaxHistoryEntries s) (MemoryHistory s) cur of
           None \<Rightarrow> None
         | Some mh \<Rightarrow>
             (case push_capped (MaxHistoryEntries s) (GoroutineHistory s) goroutines of
                None \<Rightarrow> None
              | Some gh \<Rightarrow>
                  Some (s\<lparr>MemoryStats := cur, NumGoroutine := goroutines, LastUpdate := i,
                          MemoryHistory := mh, GoroutineHistory := gh\<rparr>)))"

section \<open>Queries\<close>

definition GetMemUsagePercent :: "system_stats \<Rightarrow> float64" where
  "GetMemUsagePercent s = UsagePercent (MemoryStats s)"

definition GetMemStats :: "system_stats \<Rightarrow> mem_stats" where
  "GetMemStats s = MemoryStats s"

definition GetNumGoroutine :: "system_stats \<Rightarrow> goint" where
  "GetNumGoroutine s = NumGoroutine s"

definition SuggestGC :: "float64 \<Rightarrow> system_stats \<Rightarrow> bool" where
  "SuggestGC threshold s \<longleftrightarrow>
     f_lt threshold (UsagePercent (MemoryStats s)) \<or>
     (NumGoroutine s > 10000 \<and> HeapObjects (MemoryStats s) > 100000)"

definition GetMemoryHistory :: "system_stats \<Rightarrow> mem_stats list" where
  "GetMemoryHistory s = MemoryHistory s"

definition GetGoroutineHistory :: "system_stats \<Rightarrow> goint list" where
  "GetGoroutineHistory s = GoroutineHistory s"

definition GetSimpleMemUsagePercent :: "rt_mem \<Rightarrow> float64" where
  "GetSimpleMemUsagePercent ms = usage_percent ms"

text \<open>The sums of the regression: over \<open>x\<close>, \<open>y\<close>, \<open>x * y\<close> and \<open>x * x\<close>.\<close>

fun trend_sums ::
  "nat \<Rightarrow> mem_stats list \<Rightarrow> float64 \<times> float64 \<times> float64 \<times> float64 \<Rightarrow>
    float64 \<times> float64 \<times> float64 \<times> float64" where
  "trend_sums i [] acc = acc"
| "trend_sums i (m # ms) (sx, sy, sxy, sxx) =
     (let x = f_of_int (int i); y = UsagePercent m
      in trend_sums (Suc i) ms
           (f_add sx x, f_add sy y, f_add sxy (f_mult x y), f_add sxx (f_mult x x)))"

definition regression_slope :: "mem_stats list \<Rightarrow> float64" where
  "regression_slope samples =
     (case trend_sums 0 samples (Fin 0, Fin 0, Fin 0, Fin 0) of
        (sx, sy, sxy, sxx) \<Rightarrow>
          let n = f_of_int (int (length samples))
          in f_div (f_sub (f_mult n sxy) (f_mult sx sy)) (f_sub (f_mult n sxx) (f_mult sx sx)))"

definition clamp_trend :: "float64 \<Rightarrow> float64" where
  "clamp_trend slope =
     (let v = f_div slope (Fin 10)
      in if f_lt (Fin 1) v then Fin 1 else if f_lt v (Fin (- 1)) then Fin (- 1) else v)"

definition GetMemoryTrend :: "system_stats \<Rightarrow> float64" where
  "GetMemoryTrend s =
     (let h = MemoryHistory s
      in if length h < 2 then Fin 0
         else let sampleCount = (if length h < 5 then length h else 5)
              in clamp_trend (regression_slope (drop (length h - sampleCount) h)))"

section \<open>Secure random integers\<close>

text \<open>
  The two functions of \<open>crypto/rand\<close> that the code calls: \<open>rand.Int(rand.Reader, max)\<close>, which
  returns an error or a number from 0 to \<open>max - 1\<close>, and \<open>rand.Read\<close> of four bytes.
\<close>

record rand_source =
  rand_Int :: "int \<Rightarrow> go_error + int"
  rand_Read4 :: "go_error + (8 word \<times> 8 word \<times> 8 word \<times> 8 word)"

definition big_endian32 :: "8 word \<times> 8 word \<times> 8 word \<times> 8 word \<Rightarrow> int" where
  "big_endian32 b =
     (case b of (b0, b1, b2, b3) \<Rightarrow> ((uint b0 * 256 + uint b1) * 256 + uint b2) * 256 + uint b3)"

definition SecureIntn :: "rand_source \<Rightarrow> goint \<Rightarrow> go_error + goint" where
  "SecureIntn src n =
     (if n \<le> 0 then Inl (ErrorNew ''invalid input: n must be positive'')
      else if n \<le> 2 ^ 31 - 1 then
        (case rand_Int src n of Inl e \<Rightarrow> Inl e | Inr v \<Rightarrow> Inr v)
      else
        (case rand_Read4 src of Inl e \<Rightarrow> Inl e | Inr b \<Rightarrow> Inr (big_endian32 b mod n)))"

definition MustSecureIntn :: "rand_source \<Rightarrow> goint \<Rightarrow> panic_val + goint" where
  "MustSecureIntn src n =
     (case SecureIntn src n of
        Inl e \<Rightarrow> Inl (PanicString (''failed to generate random number: '' @ error_text e))
      | Inr v \<Rightarrow> Inr v)"

section \<open>Facts\<close>

text \<open>A capped history holds the last readings, in order.\<close>

definition window :: "nat \<Rightarrow> 'a list \<Rightarrow> 'a list" where
  "window n xs = drop (length xs - n) xs"

lemma push_capped_window:
  assumes "0 < n"
  shows "push_capped (int n) (window n xs) x = Some (window n (xs @ [x]))"
proof (cases "length xs < n")
  case True
  then show ?thesis by (simp add: window_def)
next
  case False
  then obtain y ys where w: "window n xs = y # ys"
    using assms by (cases "window n xs") (auto simp: window_def)
  have "window n (xs @ [x]) = drop 1 (window n xs) @ [x]"
    using False assms by (simp add: window_def Suc_diff_le)
  moreover have "length (window n xs) = n" using False by (simp add: window_def)
  ultimately show ?thesis using w by simp
qed

lemma push_capped_100: "push_capped 100 (window 100 xs) x = Some (window 100 (xs @ [x]))"
  using push_capped_window [of 100 xs x] by (simp del: push_capped.simps)

fun stats_run :: "(rt_mem \<times> goint \<times> instant) list \<Rightarrow> system_stats \<Rightarrow> system_stats option" where
  "stats_run [] s = Some s"
| "stats_run ((ms, g, i) # rs) s =
     (case UpdateMemStats ms g i s of None \<Rightarrow> None | Some s' \<Rightarrow> stats_run rs s')"

definition tracks :: "(rt_mem \<times> goint \<times> instant) list \<Rightarrow> system_stats \<Rightarrow> bool" where
  "tracks rs s \<longleftrightarrow> MaxHistoryEntries s = 100 \<and>
     MemoryHistory s = window 100 (map (\<lambda>(ms, g, i). snapshot ms i) rs) \<and>
     GoroutineHistory s = window 100 (map (\<lambda>(ms, g, i). g) rs) \<and>
     (rs \<noteq> [] \<longrightarrow> MemoryStats s = (case last rs of (ms, g, i) \<Rightarrow> snapshot ms i) \<and>
        NumGoroutine s = (case last rs of (ms, g, i) \<Rightarrow> g) \<and>
        LastUpdate s = (case last rs of (ms, g, i) \<Rightarrow> i))"

lemma UpdateMemStats_tracks:
  assumes "tracks rs s"
  obtains s' where "UpdateMemStats ms g i s = Some s'" "tracks (rs @ [(ms, g, i)]) s'"
proof -
  have "UpdateMemStats ms g i s =
      Some (s\<lparr>MemoryStats := snapshot ms i, NumGoroutine := g, LastUpdate := i,
        MemoryHistory := window 100 (map (\<lambda>(ms, g, i). snapshot ms i) rs @ [snapshot ms i]),
        GoroutineHistory := window 100 (map (\<lambda>(ms, g, i). g) rs @ [g])\<rparr>)"
    using assms by (simp add: UpdateMemStats_def tracks_def push_capped_100 Let_def del: push_capped.simps)
  then show thesis using that assms by (simp add: tracks_def)
qed

lemma stats_run_tracks: "tracks rs0 s \<Longrightarrow> \<exists>s'. stats_run rs s = Some s' \<and> tracks (rs0 @ rs) s'"
proof (induction rs arbitrary: rs0 s)
  case (Cons r rs)
  obtain ms g i where r: "r = (ms, g, i)" by (cases r)
  obtain s1 where "UpdateMemStats ms g i s = Some s1" "tracks (rs0 @ [(ms, g, i)]) s1"
    using UpdateMemStats_tracks [OF Cons.prems] .
  with Cons.IH [of "rs0 @ [(ms, g, i)]" s1] r show ?case by simp
qed simp

section \<open>Properties\<close>

text \<open>C35: Updating never panics, and after any number of readings the two histories hold exactly the
  last hundred snapshots and goroutine counts, in order, and the current values are those of the last
  reading.\<close>

theorem stats_history_window:
  "\<exists>s. stats_run rs (NewSystemStats i0) = Some s \<and>
    MemoryHistory s = window 100 (map (\<lambda>(ms, g, i). snapshot ms i) rs) \<and>
    GoroutineHistory s = window 100 (map (\<lambda>(ms, g, i). g) rs) \<and>
    length (MemoryHistory s) \<le> 100 \<and>
    (rs = [] \<or> GetMemUsagePercent s = (case last rs of (ms, g, i) \<Rightarrow> usage_percent ms))"
proof -
  have "tracks [] (NewSystemStats i0)" by (simp add: tracks_def NewSystemStats_def window_def)
  from stats_run_tracks [OF this, of rs] obtain s where s: "stats_run rs (NewSystemStats i0) = Some s"
    "tracks rs s" by auto
  have "length (window 100 xs) \<le> 100" for xs :: "mem_stats list" by (simp add: window_def)
  with s show ?thesis
    by (auto simp: tracks_def GetMemUsagePercent_def snapshot_def Let_def split: prod.splits)
qed

text \<open>The memory trend is zero with fewer than two samples; otherwise it is between -1 and 1, or a
  NaN when the samples are not numbers.\<close>

lemma GetMemoryTrend_range:
  "GetMemoryTrend s = NaN \<or> (f_le (Fin (- 1)) (GetMemoryTrend s) \<and> f_le (GetMemoryTrend s) (Fin 1))"
proof -
  have "clamp_trend x = NaN \<or> (f_le (Fin (- 1)) (clamp_trend x) \<and> f_le (clamp_trend x) (Fin 1))" for x
  proof -
    have "v = NaN \<or> (f_le (Fin (- 1)) v \<and> f_le v (Fin 1))" if "\<not> f_lt (Fin 1) v" "\<not> f_lt v (Fin (- 1))" for v
      using that by (cases v) auto
    then show ?thesis by (simp add: clamp_trend_def Let_def)
  qed
  then show ?thesis by (simp add: GetMemoryTrend_def Let_def)
qed

text \<open>The usage percentage of a reading whose allocation does not exceed what was obtained from the
  system is a number from 0 to 100, rounding included; a reading of zeros gives a NaN.\<close>

lemma usage_percent_range:
  assumes "0 \<le> rt_Alloc ms" and "rt_Alloc ms \<le> rt_Sys ms" and "rt_Sys ms \<le> 2 ^ 53"
  shows "(0 < rt_Sys ms \<longrightarrow> (\<exists>p. usage_percent ms = Fin p \<and> 0 \<le> p \<and> p \<le> 100)) \<and>
    (rt_Sys ms = 0 \<longrightarrow> usage_percent ms = NaN)"
proof -
  let ?a = "rt_Alloc ms" and ?b = "rt_Sys ms"
  have conv: "f_of_int ?a = Fin (of_int ?a)" "f_of_int ?b = Fin (of_int ?b)" "f_of_int 100 = Fin 100"
    using assms by (simp_all add: f_of_int_exact)
  have "\<exists>p. usage_percent ms = Fin p \<and> 0 \<le> p \<and> p \<le> 100" if "0 < ?b"
  proof -
    have "0 \<le> (of_int ?a / of_int ?b :: rat)" "of_int ?a / of_int ?b \<le> (of_int 1 :: rat)"
      using assms that by (simp_all add: divide_le_eq)
    then obtain v where v: "f_round (of_int ?a / of_int ?b) = Fin v" "0 \<le> v" "v \<le> of_int 1"
      by (rule f_round_le_int) simp_all
    have "0 \<le> v * 100" "v * 100 \<le> of_int 100" using v by simp_all
    then obtain p where "f_round (v * 100) = Fin p" "0 \<le> p" "p \<le> of_int 100"
      by (rule f_round_le_int) simp_all
    then show ?thesis using v conv that by (simp add: usage_percent_def)
  qed
  moreover have "usage_percent ms = NaN" if "?b = 0"
    using that assms conv by (simp add: usage_percent_def)
  ultimately show ?thesis by blast
qed

definition sample_mem :: "int \<Rightarrow> int \<Rightarrow> rt_mem" where
  "sample_mem alloc sys =
     \<lparr>rt_Alloc = alloc, rt_Sys = sys, rt_LastGC = 0, rt_NumGC = 0, rt_PauseNs = (\<lambda>_. 0),
      rt_HeapObjects = 0, rt_HeapInuse = 0, rt_StackInuse = 0, rt_MSpanInuse = 0, rt_MCacheInuse = 0,
      rt_BuckHashSys = 0, rt_GCSys = 0, rt_OtherSys = 0, rt_NextGC = 0, rt_TotalAlloc = 0,
      rt_Mallocs = 0, rt_Frees = 0, rt_PauseTotalNs = 0\<rparr>"

text \<open>With a source that behaves as documented, \<open>SecureIntn\<close> returns a number from 0 to \<open>n - 1\<close>;
  above \<open>2 ^ 31 - 1\<close> it draws only 32 bits, so the result is below \<open>2 ^ 32\<close> however large \<open>n\<close> is.\<close>

lemma SecureIntn_range:
  assumes "\<forall>m v. rand_Int src m = Inr v \<longrightarrow> 0 \<le> v \<and> v < m" and "SecureIntn src n = Inr r"
  shows "0 \<le> r \<and> r < n \<and> (2 ^ 31 - 1 < n \<longrightarrow> r < 2 ^ 32)"
proof -
  have n: "0 < n" using assms(2) by (auto simp: SecureIntn_def split: if_splits)
  show ?thesis
  proof (cases "n \<le> 2 ^ 31 - 1")
    case True
    then show ?thesis using assms n by (auto simp: SecureIntn_def split: sum.splits)
  next
    case False
    then obtain b where r: "r = big_endian32 b mod n"
      using assms(2) n by (auto simp: SecureIntn_def split: sum.splits)
    obtain b0 b1 b2 b3 where b: "b = (b0, b1, b2, b3)" by (cases b)
    have byte: "0 \<le> uint (w :: 8 word) \<and> uint w \<le> 255" for w
      using uint_lt2p [of w] uint_ge_0 [of w] by simp
    have eq: "big_endian32 b = 16777216 * uint b0 + 65536 * uint b1 + 256 * uint b2 + uint b3"
      by (simp add: big_endian32_def b)
    note bytes = byte [of b0, THEN conjunct1] byte [of b1, THEN conjunct1] byte [of b2, THEN conjunct1]
      byte [of b3, THEN conjunct1] byte [of b0, THEN conjunct2] byte [of b1, THEN conjunct2]
      byte [of b2, THEN conjunct2] byte [of b3, THEN conjunct2]
    have "0 \<le> big_endian32 b" using eq bytes by linarith
    moreover have "big_endian32 b \<le> 4294967295" using eq bytes by linarith
    moreover have "big_endian32 b mod n \<le> big_endian32 b" using eq bytes n
      by (intro zmod_le_nonneg_dividend) linarith
    ultimately show ?thesis using r n by simp
  qed
qed

definition zero_source :: rand_source where
  "zero_source = \<lparr>rand_Int = (\<lambda>m. if 0 < m then Inr 0 else Inl (ErrorNew ''bad'')),
     rand_Read4 = Inr (255, 255, 255, 255)\<rparr>"

section \<open>The memory trend\<close>

text \<open>The slope of the least-squares line through the points \<open>(k, ys ! k)\<close>, in exact arithmetic.\<close>

definition lsq_slope :: "int list \<Rightarrow> rat" where
  "lsq_slope ys =
     (let n = int (length ys); sx = (\<Sum>k<length ys. int k); sy = (\<Sum>k<length ys. ys ! k);
          sxy = (\<Sum>k<length ys. int k * ys ! k); sxx = (\<Sum>k<length ys. int k * int k)
      in of_int (n * sxy - sx * sy) / of_int (n * sxx - sx * sx))"

lemma f_int_ops:
  assumes "\<bar>a\<bar> \<le> 2 ^ 53" "\<bar>b\<bar> \<le> 2 ^ 53"
  shows "\<bar>a + b\<bar> \<le> 2 ^ 53 \<Longrightarrow> f_add (Fin (of_int a)) (Fin (of_int b)) = Fin (of_int (a + b))"
    "\<bar>a - b\<bar> \<le> 2 ^ 53 \<Longrightarrow> f_sub (Fin (of_int a)) (Fin (of_int b)) = Fin (of_int (a - b))"
    "\<bar>a * b\<bar> \<le> 2 ^ 53 \<Longrightarrow> f_mult (Fin (of_int a)) (Fin (of_int b)) = Fin (of_int (a * b))"
  using f_of_int_exact [of "a + b"] f_of_int_exact [of "a - b"] f_of_int_exact [of "a * b"]
  by (simp_all add: f_sub_def f_of_int_def)

lemma trend_sums_int:
  assumes "map UsagePercent ms = map (\<lambda>y. Fin (of_int y)) ys" "\<forall>y \<in> set ys. \<bar>y\<bar> \<le> 2 ^ 40"
    and "i + length ys \<le> 5" "\<bar>sx\<bar> \<le> 5 * int i" "\<bar>sy\<bar> \<le> int i * 2 ^ 40" "\<bar>sxy\<bar> \<le> 5 * int i * 2 ^ 40" "\<bar>sxx\<bar> \<le> 25 * int i"
  shows "trend_sums i ms (Fin (of_int sx), Fin (of_int sy), Fin (of_int sxy), Fin (of_int sxx)) =
    (Fin (of_int (sx + (\<Sum>k<length ys. int (i + k)))), Fin (of_int (sy + (\<Sum>k<length ys. ys ! k))),
     Fin (of_int (sxy + (\<Sum>k<length ys. int (i + k) * ys ! k))), Fin (of_int (sxx + (\<Sum>k<length ys. int (i + k) * int (i + k)))))"
  using assms
proof (induction ys arbitrary: ms i sx sy sxy sxx)
  case (Cons y ys)
  obtain m ms' where ms: "ms = m # ms'" "UsagePercent m = Fin (of_int y)"
    "map UsagePercent ms' = map (\<lambda>y. Fin (of_int y)) ys" using Cons.prems(1) by auto
  have i: "int i \<le> 4" and y: "\<bar>y\<bar> \<le> 2 ^ 40" using Cons.prems(2,3) by auto
  have xy: "\<bar>int i * y\<bar> \<le> 5 * 2 ^ 40"
    using mult_mono [of "int i" 5 "\<bar>y\<bar>" "2 ^ 40"] i y by (simp add: abs_mult)
  have xx: "int i * int i \<le> 25" "0 \<le> int i * int i"
    using mult_mono [of "int i" 5 "int i" 5] i by simp_all
  have xx': "\<bar>int i * int i\<bar> \<le> 2 ^ 53" "\<bar>sxx + int i * int i\<bar> \<le> 2 ^ 53" "\<bar>int i\<bar> \<le> 2 ^ 53" "\<bar>sxx\<bar> \<le> 2 ^ 53" if "\<bar>sxx\<bar> \<le> 100"
    using xx that i by (simp_all, linarith)
  have sums: "\<bar>sx\<bar> \<le> 20" "\<bar>sy\<bar> \<le> 4 * 2 ^ 40" "\<bar>sxy\<bar> \<le> 20 * 2 ^ 40" "\<bar>sxx\<bar> \<le> 100"
    using Cons.prems(4-7) i by simp_all
  have step1: "f_of_int (int i) = Fin (of_int (int i))" using i by (intro f_of_int_exact) simp
  have step2: "f_add (Fin (of_int sx)) (Fin (of_int (int i))) = Fin (of_int (sx + int i))"
    using i sums(1) by (intro f_int_ops(1)) simp_all
  have step3: "f_add (Fin (of_int sy)) (Fin (of_int y)) = Fin (of_int (sy + y))"
    using y sums(2) by (intro f_int_ops(1)) simp_all
  have step4: "f_mult (Fin (of_int (int i))) (Fin (of_int y)) = Fin (of_int (int i * y))"
    using i y xy by (intro f_int_ops(3)) simp_all
  have step5: "f_add (Fin (of_int sxy)) (Fin (of_int (int i * y))) = Fin (of_int (sxy + int i * y))"
    using xy sums(3) by (intro f_int_ops(1)) simp_all
  have step6: "f_mult (Fin (of_int (int i))) (Fin (of_int (int i))) = Fin (of_int (int i * int i))"
    using xx'(1,3) [OF sums(4)] by (intro f_int_ops(3))
  have step7: "f_add (Fin (of_int sxx)) (Fin (of_int (int i * int i))) = Fin (of_int (sxx + int i * int i))"
    using xx'(1,2,4) [OF sums(4)] by (intro f_int_ops(1))
  note step = step1 step2 step3 step4 step5 step6 step7
  have bounds1: "\<bar>sx + int i\<bar> \<le> 5 * int (Suc i)" using Cons.prems(4) i by simp
  have bounds2: "\<bar>sy + y\<bar> \<le> int (Suc i) * 2 ^ 40" using Cons.prems(5) y by simp
  have bounds3: "\<bar>sxy + int i * y\<bar> \<le> 5 * int (Suc i) * 2 ^ 40" using Cons.prems(6) xy by simp
  have bounds4: "\<bar>sxx + int i * int i\<bar> \<le> 25 * int (Suc i)" 
  proof -
    have "\<bar>sxx + int i * int i\<bar> \<le> \<bar>sxx\<bar> + \<bar>int i * int i\<bar>" by (rule abs_triangle_ineq)
    also have "\<dots> \<le> 25 * int i + 25" using Cons.prems(7) xx by (intro add_mono) simp_all
    finally show ?thesis by simp
  qed
  note bounds = bounds1 bounds2 bounds3 bounds4
  have "\<forall>y \<in> set ys. \<bar>y\<bar> \<le> 2 ^ 40" "Suc i + length ys \<le> 5" using Cons.prems(2,3) by auto
  from Cons.IH [OF ms(3) this bounds] show ?case
    unfolding ms(1) trend_sums.simps Let_def ms(2) step
    by (simp add: sum.lessThan_Suc_shift add.assoc add.left_commute del: sum.lessThan_Suc of_int_add of_int_sum of_int_mult)
qed simp

text \<open>The denominator is positive from two points on, and the slope of a straight line is its slope.\<close>

lemma lsq_slope_line:
  assumes "2 \<le> n" "n \<le> 5"
  shows "lsq_slope (map (\<lambda>k. a + b * int k) [0..<n]) = of_int b"
proof -
  from assms have "n = 2 \<or> n = 3 \<or> n = 4 \<or> n = 5" by auto
  then show ?thesis
    by (elim disjE) (simp_all add: lsq_slope_def Let_def eval_nat_numeral upt_rec algebra_simps)
qed


text \<open>The sums of at most five readings are exact, and so are the two differences that are divided.\<close>

lemma sum_bounded:
  fixes f :: "nat \<Rightarrow> int"
  assumes "\<forall>k < n. \<bar>f k\<bar> \<le> B" "n \<le> 5" "0 \<le> B"
  shows "\<bar>\<Sum>k<n. f k\<bar> \<le> 5 * B"
proof -
  have "\<bar>\<Sum>k<n. f k\<bar> \<le> (\<Sum>k<n. \<bar>f k\<bar>)" by (rule sum_abs)
  also have "\<dots> \<le> of_nat (card {..<n}) * B" using assms(1) by (intro sum_bounded_above) simp
  also have "\<dots> \<le> 5 * B" using assms(2,3) by (simp add: mult_right_mono)
  finally show ?thesis .
qed

lemma sxx_small: "n \<le> 5 \<Longrightarrow> (\<Sum>k<n. int k) \<le> 10 \<and> (\<Sum>k<n. int k * int k) \<le> 30"
proof -
  assume "n \<le> 5"
  then have "n = 0 \<or> n = 1 \<or> n = 2 \<or> n = 3 \<or> n = 4 \<or> n = 5" by auto
  then show ?thesis by (elim disjE) (simp_all add: eval_nat_numeral)
qed

lemma lsq_denominator:
  assumes "2 \<le> n" "n \<le> 5"
  shows "0 < int n * (\<Sum>k<n. int k * int k) - (\<Sum>k<n. int k) * (\<Sum>k<n. int k)"
proof -
  from assms have "n = 2 \<or> n = 3 \<or> n = 4 \<or> n = 5" by auto
  then show ?thesis by (elim disjE) (simp_all add: eval_nat_numeral)
qed

lemma regression_slope_int:
  assumes "map UsagePercent ms = map (\<lambda>y. Fin (of_int y)) ys" "\<forall>y \<in> set ys. \<bar>y\<bar> \<le> 2 ^ 40"
    and "2 \<le> length ys" "length ys \<le> 5"
  shows "regression_slope ms = f_round (lsq_slope ys)"
proof -
  define n where "n = length ys"
  define sx where "sx = (\<Sum>k<n. int k)"
  define sy where "sy = (\<Sum>k<n. ys ! k)"
  define sxy where "sxy = (\<Sum>k<n. int k * ys ! k)"
  define sxx where "sxx = (\<Sum>k<n. int k * int k)"
  note defs = sx_def sy_def sxy_def sxx_def
  have len: "length ms = n" using arg_cong [OF assms(1), of length] by (simp add: n_def)
  have n: "n \<le> 5" "2 \<le> n" using assms(3,4) by (simp_all add: n_def)
  have ys: "\<forall>k < n. \<bar>ys ! k\<bar> \<le> 2 ^ 40" using assms(2) by (simp add: n_def)
  have sums: "trend_sums 0 ms (Fin 0, Fin 0, Fin 0, Fin 0) = (Fin (of_int sx), Fin (of_int sy), Fin (of_int sxy), Fin (of_int sxx))"
    using trend_sums_int [OF assms(1,2), of 0 0 0 0 0] assms(4) by (simp add: defs n_def)
  have b: "0 \<le> sx" "sx \<le> 10" "0 \<le> sxx" "sxx \<le> 30" using sxx_small [OF n(1)] by (simp_all add: defs sum_nonneg)
  have sy: "\<bar>sy\<bar> \<le> 5 * 2 ^ 40" unfolding sy_def using ys n by (intro sum_bounded) auto
  have "\<bar>int k * ys ! k\<bar> \<le> 5 * 2 ^ 40" if "k < n" for k
    using mult_mono [of "int k" 5 "\<bar>ys ! k\<bar>" "2 ^ 40"] ys n that by (simp add: abs_mult)
  then have sxy: "\<bar>sxy\<bar> \<le> 5 * (5 * 2 ^ 40)" unfolding sxy_def using n by (intro sum_bounded) auto
  have p1: "\<bar>int n * sxy\<bar> \<le> 125 * 2 ^ 40"
    using mult_mono [of "int n" 5 "\<bar>sxy\<bar>" "25 * 2 ^ 40"] n sxy by (simp add: abs_mult)
  have p2: "\<bar>sx * sy\<bar> \<le> 50 * 2 ^ 40"
    using mult_mono [of sx 10 "\<bar>sy\<bar>" "5 * 2 ^ 40"] b sy by (simp add: abs_mult)
  have p3: "\<bar>int n * sxx\<bar> \<le> 150" using mult_mono [of "int n" 5 sxx 30] n b by (simp add: abs_mult)
  have p4: "\<bar>sx * sx\<bar> \<le> 100" using mult_mono [of sx 10 sx 10] b by (simp add: abs_mult)
  have q1: "\<bar>int n * sxy - sx * sy\<bar> \<le> 2 ^ 53" using abs_triangle_ineq4 [of "int n * sxy" "sx * sy"] p1 p2 by simp
  have q2: "\<bar>int n * sxx - sx * sx\<bar> \<le> 2 ^ 53" using abs_triangle_ineq4 [of "int n * sxx" "sx * sx"] p3 p4 by simp
  have ops: "f_of_int (int n) = Fin (of_int (int n))"
    "f_mult (Fin (of_int (int n))) (Fin (of_int sxy)) = Fin (of_int (int n * sxy))"
    "f_mult (Fin (of_int sx)) (Fin (of_int sy)) = Fin (of_int (sx * sy))"
    "f_mult (Fin (of_int (int n))) (Fin (of_int sxx)) = Fin (of_int (int n * sxx))"
    "f_mult (Fin (of_int sx)) (Fin (of_int sx)) = Fin (of_int (sx * sx))"
    "f_sub (Fin (of_int (int n * sxy))) (Fin (of_int (sx * sy))) = Fin (of_int (int n * sxy - sx * sy))"
    "f_sub (Fin (of_int (int n * sxx))) (Fin (of_int (sx * sx))) = Fin (of_int (int n * sxx - sx * sx))"
    subgoal using n by (intro f_of_int_exact) simp
    subgoal using n sxy p1 by (intro f_int_ops(3)) simp_all
    subgoal using b sy p2 by (intro f_int_ops(3)) simp_all
    subgoal using n b p3 by (intro f_int_ops(3)) simp_all
    subgoal using b p4 by (intro f_int_ops(3)) simp_all
    subgoal using p1 p2 q1 by (intro f_int_ops(2)) simp_all
    subgoal using p3 p4 q2 by (intro f_int_ops(2)) simp_all
    done
  have den: "of_int (int n * sxx - sx * sx) \<noteq> (0 :: rat)"
    using lsq_denominator [OF n(2,1)] unfolding defs of_int_eq_0_iff by linarith
  show ?thesis
    unfolding regression_slope_def sums len ops Let_def prod.case f_div.simps if_not_P [OF den]
    by (simp add: lsq_slope_def defs n_def)
qed



end
