(* ===== verification/Resource_Monitor.thy ===== *)
theory Resource_Monitor
  imports Metrics
begin

text \<open>
  The resource monitor (\<open>internal/utils/resource.go\<close>): its options, the two scaling predicates with
  their cooldowns, and its monitoring loop as the sequence of ticker events that it handles before its
  context is done.  A cleanup is the garbage collection that the loop forces; the loop reports the
  instants at which it happened.
\<close>

record resource_monitor =
  rm_stats :: system_stats
  memoryLowmark :: float64
  memoryHighmark :: float64
  checkInterval :: duration
  lastCleanup :: instant
  cleanupThreshold :: float64
  minCleanupInterval :: duration
  scaleDownDelay :: duration
  lastScaleDown :: instant
  lastScaleUp :: instant
  scaleUpCooldown :: duration

type_synonym monitor_option = "resource_monitor \<Rightarrow> resource_monitor"

definition default_monitor :: "instant \<Rightarrow> resource_monitor" where
  "default_monitor i =
     \<lparr>rm_stats = NewSystemStats i, memoryLowmark = Fin 60, memoryHighmark = Fin 75,
      checkInterval = 500 * millisecond, lastCleanup = i, cleanupThreshold = Fin 85,
      minCleanupInterval = 300 * second, scaleDownDelay = 30 * second, lastScaleDown = i,
      lastScaleUp = i, scaleUpCooldown = 30 * second\<rparr>"

definition NewResourceMonitor :: "monitor_option list \<Rightarrow> instant \<Rightarrow> resource_monitor" where
  "NewResourceMonitor opts i = foldl (\<lambda>rm opt. opt rm) (default_monitor i) opts"

definition rm_WithMemoryWatermarks :: "float64 \<Rightarrow> float64 \<Rightarrow> monitor_option" where
  "rm_WithMemoryWatermarks low high rm = rm\<lparr>memoryLowmark := low, memoryHighmark := high\<rparr>"

definition WithCheckInterval :: "duration \<Rightarrow> monitor_option" where
  "WithCheckInterval interval rm = rm\<lparr>checkInterval := interval\<rparr>"

definition WithCleanupConfig :: "float64 \<Rightarrow> duration \<Rightarrow> monitor_option" where
  "WithCleanupConfig threshold minInterval rm =
     rm\<lparr>cleanupThreshold := threshold, minCleanupInterval := minInterval\<rparr>"

definition WithScaleDownDelay :: "duration \<Rightarrow> monitor_option" where
  "WithScaleDownDelay delay rm = rm\<lparr>scaleDownDelay := delay\<rparr>"

lemmas monitor_option_defs =
  NewResourceMonitor_def default_monitor_def rm_WithMemoryWatermarks_def WithCheckInterval_def
  WithCleanupConfig_def WithScaleDownDelay_def

section \<open>Monitoring\<close>

text \<open>\<open>true\<close> when memory was cleaned up.\<close>

definition monitorMemory :: "instant \<Rightarrow> resource_monitor \<Rightarrow> bool \<times> resource_monitor" where
  "monitorMemory i rm =
     (let memUsage = GetMemUsagePercent (rm_stats rm)
      in if f_lt (cleanupThreshold rm) memUsage \<and> time_sub i (lastCleanup rm) > minCleanupInterval rm
         then (True, rm\<lparr>lastCleanup := i\<rparr>)
         else (False, rm))"

text \<open>One tick: the reading, the number of goroutines and the instant.  \<open>None\<close> is a panic.\<close>

definition rm_tick ::
  "rt_mem \<times> goint \<times> instant \<Rightarrow> resource_monitor \<Rightarrow> (bool \<times> resource_monitor) option" where
  "rm_tick r rm =
     (case r of (ms, g, i) \<Rightarrow>
        (case UpdateMemStats ms g i (rm_stats rm) of
           None \<Rightarrow> None
         | Some s \<Rightarrow> Some (monitorMemory i (rm\<lparr>rm_stats := s\<rparr>))))"

fun rm_ticks ::
  "(rt_mem \<times> goint \<times> instant) list \<Rightarrow> resource_monitor \<Rightarrow> (instant list \<times> resource_monitor) option" where
  "rm_ticks [] rm = Some ([], rm)"
| "rm_ticks (r # rs) rm =
     (case rm_tick r rm of
        None \<Rightarrow> None
      | Some (cleaned, rm') \<Rightarrow>
          (case rm_ticks rs rm' of
             None \<Rightarrow> None
           | Some (is, rm'') \<Rightarrow> Some ((if cleaned then [snd (snd r)] else []) @ is, rm'')))"

text \<open>\<open>Start\<close> until its context is done: \<open>time.NewTicker\<close> panics on an interval that is not positive.\<close>

definition rm_Start ::
  "(rt_mem \<times> goint \<times> instant) list \<Rightarrow> resource_monitor \<Rightarrow> (instant list \<times> resource_monitor) option" where
  "rm_Start rs rm = (if checkInterval rm \<le> 0 then None else rm_ticks rs rm)"

section \<open>Scaling decisions\<close>

definition ShouldScaleDown :: "resource_monitor \<Rightarrow> bool" where
  "ShouldScaleDown rm = f_lt (memoryHighmark rm) (GetMemUsagePercent (rm_stats rm))"

definition ShouldScaleUp :: "instant \<Rightarrow> resource_monitor \<Rightarrow> bool" where
  "ShouldScaleUp i rm =
     (let memUsage = GetMemUsagePercent (rm_stats rm)
      in if f_le (memoryLowmark rm) memUsage then False
         else if time_sub i (lastScaleDown rm) < scaleDownDelay rm then False
         else if time_sub i (lastScaleUp rm) < scaleUpCooldown rm then False
         else True)"

definition RecordScaleUp :: "instant \<Rightarrow> resource_monitor \<Rightarrow> resource_monitor" where
  "RecordScaleUp i rm = rm\<lparr>lastScaleUp := i\<rparr>"

definition RecordScaleDown :: "instant \<Rightarrow> resource_monitor \<Rightarrow> resource_monitor" where
  "RecordScaleDown i rm = rm\<lparr>lastScaleDown := i\<rparr>"

definition GetStats :: "resource_monitor \<Rightarrow> system_stats" where
  "GetStats rm = rm_stats rm"

section \<open>Facts\<close>

lemma rm_tick_cleaned:
  assumes "rm_tick (ms, g, i) rm = Some (cleaned, rm')"
  shows "minCleanupInterval rm' = minCleanupInterval rm"
    and "cleaned \<Longrightarrow> lastCleanup rm' = i \<and> time_sub i (lastCleanup rm) > minCleanupInterval rm"
    and "\<not> cleaned \<Longrightarrow> lastCleanup rm' = lastCleanup rm"
  using assms by (auto simp: rm_tick_def monitorMemory_def Let_def split: option.splits if_splits)

text \<open>Cleanups in a list, each more than \<open>d\<close> after the one before it.\<close>

fun spaced :: "duration \<Rightarrow> instant \<Rightarrow> instant list \<Rightarrow> bool" where
  "spaced d i [] \<longleftrightarrow> True"
| "spaced d i (j # js) \<longleftrightarrow> time_sub j i > d \<and> spaced d j js"

lemma rm_ticks_spaced:
  "rm_ticks rs rm = Some (is, rm') \<Longrightarrow> spaced (minCleanupInterval rm) (lastCleanup rm) is"
proof (induction rs arbitrary: rm "is")
  case (Cons r rs)
  obtain ms g i where r: "r = (ms, g, i)" by (cases r)
  from Cons.prems r obtain cleaned rm1 js where step: "rm_tick (ms, g, i) rm = Some (cleaned, rm1)"
    "rm_ticks rs rm1 = Some (js, rm')" "is = (if cleaned then [i] else []) @ js"
    by (auto split: option.splits)
  from Cons.IH [OF step(2)] rm_tick_cleaned [OF step(1)] step(3) show ?case by (cases cleaned) auto
qed simp

section \<open>Properties\<close>

text \<open>C37: However often the monitor ticks, two forced garbage collections, and the first one and the
  creation of the monitor, are more than the configured minimum interval apart.\<close>

theorem cleanups_spaced:
  assumes "rm_Start rs (NewResourceMonitor opts i) = Some (is, rm')"
  shows "spaced (minCleanupInterval (NewResourceMonitor opts i)) (lastCleanup (NewResourceMonitor opts i)) is"
  using assms rm_ticks_spaced by (auto simp: rm_Start_def split: if_splits)

definition eager_monitor :: resource_monitor where
  "eager_monitor = NewResourceMonitor [WithCleanupConfig (Fin 1) 5] 0"

definition busy_readings :: "(rt_mem \<times> goint \<times> instant) list" where
  "busy_readings = [(sample_mem 1 2, 1, 3), (sample_mem 1 2, 1, 6), (sample_mem 1 2, 1, 9), (sample_mem 1 2, 1, 12)]"

theorem cleanups_spaced_witness:
  "\<exists>rm'. rm_Start busy_readings eager_monitor = Some ([6, 12], rm') \<and> spaced 5 0 [6, 12]"
proof -
  have half: "f_round (1 / 2) = Fin (1 / 2)" using f_round_exact [of 1 "- 1"] by (simp add: power_int_def)
  have fifty: "f_round 50 = Fin 50" using f_of_int_exact [of 50] by (simp add: f_of_int_def)
  have usage: "usage_percent (sample_mem 1 2) = Fin 50"
    by (simp add: usage_percent_def sample_mem_def f_of_int_exact half fifty)
  have snap: "UsagePercent (snapshot (sample_mem 1 2) i) = Fin 50" for i
    by (simp add: snapshot_def usage Let_def)
  obtain rm' where run: "rm_Start busy_readings eager_monitor = Some ([6, 12], rm')"
    by (simp add: rm_Start_def rm_tick_def monitorMemory_def UpdateMemStats_def GetMemUsagePercent_def
        busy_readings_def eager_monitor_def monitor_option_defs NewSystemStats_def snap time_sub_def Let_def)
  from cleanups_spaced [OF run [unfolded eager_monitor_def]] run show ?thesis
    by (simp add: monitor_option_defs)
qed

text \<open>After a scale-up is recorded the monitor does not ask for another one during the cooldown, and
  with watermarks in order it never asks for both directions at once, whatever the memory usage.\<close>

lemma scaling_decisions:
  "(i \<le> j \<and> j < i + scaleUpCooldown rm \<and> in64 (j - i) \<longrightarrow> \<not> ShouldScaleUp j (RecordScaleUp i rm)) \<and>
   (f_le (memoryLowmark rm) (memoryHighmark rm) \<longrightarrow> \<not> (ShouldScaleUp j rm \<and> ShouldScaleDown rm))"
proof -
  have "\<not> (ShouldScaleUp j rm \<and> ShouldScaleDown rm)" if "f_le (memoryLowmark rm) (memoryHighmark rm)"
    using f_le_trans [OF that] f_le_of_lt
    by (auto simp: ShouldScaleUp_def ShouldScaleDown_def Let_def)
  then show ?thesis by (auto simp: ShouldScaleUp_def RecordScaleUp_def time_sub_exact Let_def)
qed

end
