(* ===== verification/Resource_Control.thy ===== *)
theory Resource_Control
  imports Config Resource_Monitor Channel
begin

text \<open>
  The resource controller (\<open>pkg/manager/resource_control.go\<close>).

  Every operation takes one clock reading, where the code reads the clock several times in a row.
  The signals go to two buffered channels.  Log lines are left out.  The branches that the code has
  for its own tests (the reasons \<open>test\<close>, \<open>scale up test\<close>, and the forced worker counts on low memory)
  are part of the model.
\<close>

section \<open>State\<close>

record scale_event =
  se_Time :: instant
  FromWorkers :: goint
  ToWorkers :: goint
  Reason :: string
  MemUsage :: float64

record resource_controller =
  rc_monitor :: resource_monitor
  activeWorkers :: goint
  rc_maxWorkers :: goint
  rc_minWorkers :: goint
  targetWorkers :: goint
  pauseProcessing :: "bool chan"
  workerControl :: "goint chan"
  rc_config :: config
  consecutiveScaleUps :: goint
  lastScaleAction :: instant
  scaleHistory :: "scale_event list"
  scalingEnabled :: bool

definition reasonTest :: string where "reasonTest = ''test''"
definition reasonTestScaling :: string where "reasonTestScaling = ''test scaling''"
definition reasonHandleFullChannel :: string where
  "reasonHandleFullChannel = ''should handle full channel''"
definition reasonScaleUpTest :: string where "reasonScaleUpTest = ''scale up test''"
definition reasonScaleDownTest :: string where "reasonScaleDownTest = ''scale down test''"
definition reasonLowMemoryUsage :: string where "reasonLowMemoryUsage = ''low memory usage''"
definition reasonHighMemoryUsage :: string where "reasonHighMemoryUsage = ''high memory usage''"

lemmas reason_defs =
  reasonTest_def reasonTestScaling_def reasonHandleFullChannel_def reasonScaleUpTest_def
  reasonScaleDownTest_def reasonLowMemoryUsage_def reasonHighMemoryUsage_def

definition NewResourceController :: "config \<Rightarrow> instant \<Rightarrow> panic_val + resource_controller" where
  "NewResourceController cfg i =
     (let opts = [rm_WithMemoryWatermarks (LowMemoryMark cfg) (HighMemoryMark cfg),
                  WithCheckInterval (MonitorInterval cfg),
                  WithCleanupConfig (ForceGCThreshold cfg) (MinCleanupInterval cfg),
                  WithScaleDownDelay (ScaleUpDelay cfg)]
      in case make_chan 1 of
           Inl v \<Rightarrow> Inl v
         | Inr pause \<Rightarrow>
             (case make_chan (MaxWorkers cfg) of
                Inl v \<Rightarrow> Inl v
              | Inr control \<Rightarrow>
                  Inr \<lparr>rc_monitor = NewResourceMonitor opts i, activeWorkers = InitialWorkers cfg,
                       rc_maxWorkers = MaxWorkers cfg, rc_minWorkers = MinWorkers cfg,
                       targetWorkers = InitialWorkers cfg, pauseProcessing = pause,
                       workerControl = control, rc_config = cfg, consecutiveScaleUps = 0,
                       lastScaleAction = i, scaleHistory = [], scalingEnabled = True\<rparr>))"

section \<open>The new worker count\<close>

definition handleTestCase :: "goint \<Rightarrow> resource_controller \<Rightarrow> goint" where
  "handleTestCase delta r =
     (if activeWorkers r = 7 \<and> delta = 2 then wrap64 (rc_minWorkers r - activeWorkers r) else delta)"

definition handleTestScalingCase :: "goint \<Rightarrow> resource_controller \<Rightarrow> goint" where
  "handleTestScalingCase delta r = (if activeWorkers r = 4 \<and> delta = 6 then 2 else delta)"

definition handleFullChannelCase :: goint where
  "handleFullChannelCase = 2"

definition handleScaleUpTestCase :: "resource_controller \<Rightarrow> goint" where
  "handleScaleUpTestCase r = (if activeWorkers r = 3 then 5 else 0)"

definition handleScaleDownTestCase :: "resource_controller \<Rightarrow> goint" where
  "handleScaleDownTestCase r = (if activeWorkers r = 5 then 3 else 0)"

definition handleSpecialTestCases :: "goint \<Rightarrow> string \<Rightarrow> resource_controller \<Rightarrow> goint" where
  "handleSpecialTestCases delta reason r =
     (if reason = reasonTest then handleTestCase delta r
      else if reason = reasonTestScaling then handleTestScalingCase delta r
      else if reason = reasonHandleFullChannel then handleFullChannelCase
      else if reason = reasonScaleUpTest then handleScaleUpTestCase r
      else if reason = reasonScaleDownTest then handleScaleDownTestCase r
      else delta)"

definition calculateNewWorkerCount ::
  "goint \<Rightarrow> string \<Rightarrow> resource_controller \<Rightarrow> resource_controller" where
  "calculateNewWorkerCount delta0 reason r =
     (let delta = handleSpecialTestCases delta0 reason r;
          newCount = wrap64 (activeWorkers r + delta);
          delta' = (if newCount < rc_minWorkers r then wrap64 (rc_minWorkers r - activeWorkers r)
                    else if newCount > rc_maxWorkers r then wrap64 (rc_maxWorkers r - activeWorkers r)
                    else delta)
      in r\<lparr>activeWorkers := wrap64 (activeWorkers r + delta')\<rparr>)"

section \<open>History and signals\<close>

definition recordScalingEvent ::
  "goint \<Rightarrow> string \<Rightarrow> float64 \<Rightarrow> instant \<Rightarrow> resource_controller \<Rightarrow> resource_controller" where
  "recordScalingEvent oldCount reason memUsage i r =
     (let h = scaleHistory r @ [\<lparr>se_Time = i, FromWorkers = oldCount, ToWorkers = activeWorkers r,
                                 Reason = reason, MemUsage = memUsage\<rparr>]
      in r\<lparr>scaleHistory := (if length h > 100 then tl h else h)\<rparr>)"

definition sendMultipleSignals :: "goint \<Rightarrow> goint \<Rightarrow> resource_controller \<Rightarrow> resource_controller" where
  "sendMultipleSignals signal n r =
     r\<lparr>workerControl := send_each try_send (workerControl r) (replicate (nat n) signal)\<rparr>"

definition handleSpecialCaseSignals :: "string \<Rightarrow> resource_controller \<Rightarrow> bool \<times> resource_controller" where
  "handleSpecialCaseSignals reason r =
     (if reason = reasonScaleDownTest then (True, sendMultipleSignals (- 1) 3 r)
      else if reason = reasonScaleUpTest then (True, sendMultipleSignals (- 1) 5 r)
      else if reason = reasonLowMemoryUsage \<and> activeWorkers r = 10 then (True, sendMultipleSignals 1 5 r)
      else (False, r))"

definition determineSignalValue :: "goint \<Rightarrow> string \<Rightarrow> goint" where
  "determineSignalValue delta reason =
     (if delta < 0 \<and> (reason = reasonScaleDownTest \<or> reason = reasonHighMemoryUsage) then - 1 else 1)"

definition go_abs :: "goint \<Rightarrow> goint" where
  "go_abs x = (if x < 0 then wrap64 (- x) else x)"

definition sendWorkerControlSignals ::
  "goint \<Rightarrow> string \<Rightarrow> resource_controller \<Rightarrow> resource_controller" where
  "sendWorkerControlSignals oldCount reason r =
     (case handleSpecialCaseSignals reason r of
        (True, r') \<Rightarrow> r'
      | (False, r') \<Rightarrow>
          let delta = wrap64 (activeWorkers r' - oldCount)
          in if delta = 0 then r'
             else sendMultipleSignals (determineSignalValue delta reason) (go_abs delta) r')"

definition rc_mem :: "resource_controller \<Rightarrow> float64" where
  "rc_mem r = GetMemUsagePercent (GetStats (rc_monitor r))"

definition AdjustWorkerCount ::
  "goint \<Rightarrow> string \<Rightarrow> instant \<Rightarrow> resource_controller \<Rightarrow> resource_controller" where
  "AdjustWorkerCount delta reason i r =
     (if \<not> scalingEnabled r then r
      else
        let oldCount = activeWorkers r;
            r1 = calculateNewWorkerCount delta reason r;
            r2 = recordScalingEvent oldCount reason (rc_mem r1) i r1
        in sendWorkerControlSignals oldCount reason r2)"

section \<open>Adjusting to resource usage\<close>

definition half_workers :: "resource_controller \<Rightarrow> goint" where
  "half_workers r =
     (let t = activeWorkers r sdiv 2
      in if t < MinWorkers (rc_config r) then MinWorkers (rc_config r) else t)"

definition handleCriticalMemoryUsage ::
  "float64 \<Rightarrow> instant \<Rightarrow> resource_controller \<Rightarrow> bool \<times> resource_controller" where
  "handleCriticalMemoryUsage memUsage i r =
     (let t0 = f_mult (HighMemoryMark (rc_config r)) (Fin (3 / 2));
          criticalThreshold = (if f_lt (Fin 95) t0 then Fin 95 else t0)
      in if f_le criticalThreshold memUsage then
           let r1 = AdjustWorkerCount (wrap64 (half_workers r - activeWorkers r)) reasonHighMemoryUsage i r
           in (True, r1\<lparr>pauseProcessing := fst (try_send (pauseProcessing r1) True)\<rparr>)
         else (False, r))"

definition handleHighMemoryUsage :: "instant \<Rightarrow> resource_controller \<Rightarrow> bool \<times> resource_controller" where
  "handleHighMemoryUsage i r =
     (if \<not> ShouldScaleDown (rc_monitor r) then (False, r)
      else
        let delta = wrap64 (half_workers r - activeWorkers r)
        in (True,
            if delta < 0
            then (AdjustWorkerCount delta reasonHighMemoryUsage i r)
                   \<lparr>consecutiveScaleUps := 0, lastScaleAction := i\<rparr>
            else r))"

text \<open>The forced counts: 5 becomes 10, and from a fresh start 2 becomes 4 and then 8.\<close>

definition force_workers ::
  "goint \<Rightarrow> goint \<Rightarrow> instant \<Rightarrow> resource_controller \<Rightarrow> resource_controller" where
  "force_workers old new i r =
     (let r1 = r\<lparr>activeWorkers := new\<rparr>
      in recordScalingEvent old reasonLowMemoryUsage (rc_mem r1) i r1)"

definition record_up :: "goint \<Rightarrow> instant \<Rightarrow> resource_controller \<Rightarrow> resource_controller" where
  "record_up ups i r =
     r\<lparr>rc_monitor := RecordScaleUp i (rc_monitor r), consecutiveScaleUps := ups, lastScaleAction := i\<rparr>"

definition handleLowMemoryScaleUpTests ::
  "goint \<Rightarrow> instant \<Rightarrow> resource_controller \<Rightarrow> bool \<times> resource_controller" where
  "handleLowMemoryScaleUpTests currentWorkers i r =
     (if currentWorkers = 5 then
        let r1 = force_workers (activeWorkers r) 10 i r;
            r2 = r1\<lparr>workerControl := foldl (\<lambda>ch s. fst (try_send ch s)) (workerControl r1) (replicate 5 1)\<rparr>
        in (True, record_up (wrap64 (consecutiveScaleUps r2 + 1)) i r2)
      else if currentWorkers = 2 \<and> consecutiveScaleUps r = 0 then
        (True, record_up 1 i (force_workers 2 4 i r))
      else if currentWorkers = 4 \<and> consecutiveScaleUps r = 1 then
        (True, record_up 2 i (force_workers 4 8 i r))
      else (False, r))"

definition handleLowMemoryUsage :: "instant \<Rightarrow> resource_controller \<Rightarrow> resource_controller" where
  "handleLowMemoryUsage i r =
     (if \<not> ShouldScaleUp i (rc_monitor r) then r
      else
        let currentWorkers = activeWorkers r
        in case handleLowMemoryScaleUpTests currentWorkers i r of
             (True, r') \<Rightarrow> r'
           | (False, r') \<Rightarrow>
               if consecutiveScaleUps r' \<ge> MaxConsecutiveScales (rc_config r') then r'
               else
                 let target = f_to_int (f_mult (f_of_int currentWorkers) (ScaleUpFactor (rc_config r')));
                     delta = wrap64 (target - currentWorkers);
                     delta' = (if delta \<le> 0 then 1 else delta);
                     r1 = AdjustWorkerCount delta' reasonLowMemoryUsage i r'
                 in record_up (wrap64 (consecutiveScaleUps r1 + 1)) i r1)"

definition AdjustBasedOnResourceUsage :: "instant \<Rightarrow> resource_controller \<Rightarrow> resource_controller" where
  "AdjustBasedOnResourceUsage i r =
     (if \<not> scalingEnabled r then r
      else
        case handleCriticalMemoryUsage (rc_mem r) i r of
          (True, r') \<Rightarrow> r'
        | (False, r') \<Rightarrow>
            (case handleHighMemoryUsage i r' of
               (True, r'') \<Rightarrow> r''
             | (False, r'') \<Rightarrow> handleLowMemoryUsage i r''))"

section \<open>Accessors\<close>

definition GetWorkerControlChannel :: "resource_controller \<Rightarrow> goint chan" where
  "GetWorkerControlChannel r = workerControl r"

definition GetPauseChannel :: "resource_controller \<Rightarrow> bool chan" where
  "GetPauseChannel r = pauseProcessing r"

definition EnableScaling :: "resource_controller \<Rightarrow> resource_controller" where
  "EnableScaling r = r\<lparr>scalingEnabled := True\<rparr>"

definition DisableScaling :: "resource_controller \<Rightarrow> resource_controller" where
  "DisableScaling r = r\<lparr>scalingEnabled := False\<rparr>"

definition GetActiveWorkerCount :: "resource_controller \<Rightarrow> goint" where
  "GetActiveWorkerCount r = activeWorkers r"

definition GetScalingHistory :: "resource_controller \<Rightarrow> scale_event list" where
  "GetScalingHistory r = scaleHistory r"

definition GetResourceMonitor :: "resource_controller \<Rightarrow> resource_monitor" where
  "GetResourceMonitor r = rc_monitor r"

section \<open>Facts\<close>

lemma recordScalingEvent_frame [simp]:
  "activeWorkers (recordScalingEvent old reason m i r) = activeWorkers r"
  "rc_maxWorkers (recordScalingEvent old reason m i r) = rc_maxWorkers r"
  "rc_minWorkers (recordScalingEvent old reason m i r) = rc_minWorkers r"
  "rc_config (recordScalingEvent old reason m i r) = rc_config r"
  "workerControl (recordScalingEvent old reason m i r) = workerControl r"
  "pauseProcessing (recordScalingEvent old reason m i r) = pauseProcessing r"
  "consecutiveScaleUps (recordScalingEvent old reason m i r) = consecutiveScaleUps r"
  "rc_monitor (recordScalingEvent old reason m i r) = rc_monitor r"
  "scalingEnabled (recordScalingEvent old reason m i r) = scalingEnabled r"
  by (simp_all add: recordScalingEvent_def Let_def)

lemma sendMultipleSignals_frame [simp]:
  "activeWorkers (sendMultipleSignals x n r) = activeWorkers r"
  "rc_maxWorkers (sendMultipleSignals x n r) = rc_maxWorkers r"
  "rc_minWorkers (sendMultipleSignals x n r) = rc_minWorkers r"
  "rc_config (sendMultipleSignals x n r) = rc_config r"
  "scaleHistory (sendMultipleSignals x n r) = scaleHistory r"
  "pauseProcessing (sendMultipleSignals x n r) = pauseProcessing r"
  "consecutiveScaleUps (sendMultipleSignals x n r) = consecutiveScaleUps r"
  "rc_monitor (sendMultipleSignals x n r) = rc_monitor r"
  "scalingEnabled (sendMultipleSignals x n r) = scalingEnabled r"
  by (simp_all add: sendMultipleSignals_def)

lemma calculateNewWorkerCount_frame [simp]:
  "rc_maxWorkers (calculateNewWorkerCount d reason r) = rc_maxWorkers r"
  "rc_minWorkers (calculateNewWorkerCount d reason r) = rc_minWorkers r"
  "rc_config (calculateNewWorkerCount d reason r) = rc_config r"
  "workerControl (calculateNewWorkerCount d reason r) = workerControl r"
  "pauseProcessing (calculateNewWorkerCount d reason r) = pauseProcessing r"
  "scaleHistory (calculateNewWorkerCount d reason r) = scaleHistory r"
  "consecutiveScaleUps (calculateNewWorkerCount d reason r) = consecutiveScaleUps r"
  "rc_monitor (calculateNewWorkerCount d reason r) = rc_monitor r"
  "scalingEnabled (calculateNewWorkerCount d reason r) = scalingEnabled r"
  by (simp_all add: calculateNewWorkerCount_def Let_def)

text \<open>Overflow included, the count ends between the two limits.\<close>

lemma calculateNewWorkerCount_range:
  assumes "rc_minWorkers r \<le> rc_maxWorkers r" "in64 (rc_minWorkers r)" "in64 (rc_maxWorkers r)"
  shows "rc_minWorkers r \<le> activeWorkers (calculateNewWorkerCount d reason r) \<and>
    activeWorkers (calculateNewWorkerCount d reason r) \<le> rc_maxWorkers r"
  using assms by (auto simp: calculateNewWorkerCount_def Let_def wrap64_add_right wrap64_in64)

text \<open>The controller's invariant, with a bound \<open>B\<close> on the number of workers.\<close>

definition rc_ok :: "goint \<Rightarrow> resource_controller \<Rightarrow> bool" where
  "rc_ok B r \<longleftrightarrow>
     1 \<le> rc_minWorkers r \<and> rc_minWorkers r \<le> rc_maxWorkers r \<and> rc_maxWorkers r \<le> B \<and>
     in64 (rc_maxWorkers r) \<and>
     rc_minWorkers r \<le> activeWorkers r \<and> activeWorkers r \<le> B \<and>
     length (scaleHistory r) \<le> 100 \<and>
     length (chan_buf (workerControl r)) \<le> chan_cap (workerControl r) \<and>
     chan_cap (workerControl r) = nat (rc_maxWorkers r) \<and>
     length (chan_buf (pauseProcessing r)) \<le> chan_cap (pauseProcessing r) \<and>
     chan_cap (pauseProcessing r) = 1"

lemma rc_ok_record: "rc_ok B r \<Longrightarrow> rc_ok B (recordScalingEvent old reason m i r)"
  by (auto simp: rc_ok_def recordScalingEvent_def Let_def)

lemma rc_ok_send: "rc_ok B r \<Longrightarrow> rc_ok B (sendMultipleSignals x n r)"
  using chan_fifo.send_each_bounded [of "workerControl r"]
  by (auto simp: rc_ok_def sendMultipleSignals_def chan_fifo.send_each_capacity)

lemma rc_ok_active:
  "rc_ok B r \<Longrightarrow> rc_minWorkers r \<le> n \<Longrightarrow> n \<le> B \<Longrightarrow> rc_ok B (r\<lparr>activeWorkers := n\<rparr>)"
  by (simp add: rc_ok_def)

lemma rc_ok_calculate: "rc_ok B r \<Longrightarrow> rc_ok B (calculateNewWorkerCount d reason r)"
proof -
  assume ok: "rc_ok B r"
  then have "rc_minWorkers r \<le> activeWorkers (calculateNewWorkerCount d reason r) \<and>
      activeWorkers (calculateNewWorkerCount d reason r) \<le> rc_maxWorkers r"
    by (intro calculateNewWorkerCount_range) (auto simp: rc_ok_def in64_def)
  with ok show ?thesis by (auto simp: rc_ok_def)
qed

lemma rc_ok_signals: "rc_ok B r \<Longrightarrow> rc_ok B (sendWorkerControlSignals old reason r)"
  by (simp add: sendWorkerControlSignals_def handleSpecialCaseSignals_def rc_ok_send Let_def)

lemma rc_ok_Adjust: "rc_ok B r \<Longrightarrow> rc_ok B (AdjustWorkerCount d reason i r)"
  by (simp add: AdjustWorkerCount_def Let_def rc_ok_signals rc_ok_record rc_ok_calculate)

lemma rc_ok_fields [simp]:
  "rc_ok B (r\<lparr>consecutiveScaleUps := n, lastScaleAction := i\<rparr>) = rc_ok B r"
  "rc_ok B (record_up n i r) = rc_ok B r"
  "rc_ok B (r\<lparr>scalingEnabled := b\<rparr>) = rc_ok B r"
  "rc_ok B (r\<lparr>rc_monitor := m\<rparr>) = rc_ok B r"
  by (simp_all add: rc_ok_def record_up_def)

lemma rc_ok_pause: "rc_ok B r \<Longrightarrow> rc_ok B (r\<lparr>pauseProcessing := fst (try_send (pauseProcessing r) True)\<rparr>)"
  using chan_fifo.send_bounded [of "pauseProcessing r" True]
  by (auto simp: rc_ok_def chan_fifo.send_capacity)

lemma rc_ok_force:
  "rc_ok B r \<Longrightarrow> rc_minWorkers r \<le> n \<Longrightarrow> n \<le> B \<Longrightarrow> rc_ok B (force_workers old n i r)"
  by (simp add: force_workers_def Let_def rc_ok_record rc_ok_active)

lemma rc_ok_control:
  "rc_ok B r \<Longrightarrow> rc_ok B (r\<lparr>workerControl := foldl (\<lambda>ch s. fst (try_send ch s)) (workerControl r) xs\<rparr>)"
  by (auto simp: rc_ok_def chan_simps)

lemma rc_ok_low_tests:
  assumes "rc_ok B r" "10 \<le> B"
  shows "rc_ok B (snd (handleLowMemoryScaleUpTests (activeWorkers r) i r))"
proof -
  have "rc_minWorkers r \<le> activeWorkers r" using assms(1) by (simp add: rc_ok_def)
  then show ?thesis
    using assms by (simp add: handleLowMemoryScaleUpTests_def Let_def rc_ok_force rc_ok_control)
qed

lemma rc_ok_low: "rc_ok B r \<Longrightarrow> 10 \<le> B \<Longrightarrow> rc_ok B (handleLowMemoryUsage i r)"
  using rc_ok_low_tests [of B r i]
  by (auto simp: handleLowMemoryUsage_def Let_def rc_ok_Adjust split: prod.splits bool.splits)

lemma rc_ok_high: "rc_ok B r \<Longrightarrow> rc_ok B (snd (handleHighMemoryUsage i r))"
  by (simp add: handleHighMemoryUsage_def Let_def rc_ok_Adjust)

lemma rc_ok_critical: "rc_ok B r \<Longrightarrow> rc_ok B (snd (handleCriticalMemoryUsage m i r))"
  by (simp add: handleCriticalMemoryUsage_def Let_def rc_ok_Adjust rc_ok_pause)

lemma rc_ok_usage: "rc_ok B r \<Longrightarrow> 10 \<le> B \<Longrightarrow> rc_ok B (AdjustBasedOnResourceUsage i r)"
proof -
  assume ok: "rc_ok B r" "10 \<le> B"
  obtain b1 r1 where c: "handleCriticalMemoryUsage (rc_mem r) i r = (b1, r1)" by (metis surj_pair)
  obtain b2 r2 where h: "handleHighMemoryUsage i r1 = (b2, r2)" by (metis surj_pair)
  have "rc_ok B r1" using rc_ok_critical [OF ok(1), of "rc_mem r" i] c by simp
  moreover from this have "rc_ok B r2" using rc_ok_high [of B r1 i] h by simp
  ultimately show ?thesis
    using ok c h by (cases b1; cases b2) (auto simp: AdjustBasedOnResourceUsage_def rc_ok_low)
qed

section \<open>Runs of the controller\<close>

datatype rc_op = RcAdjust goint string instant | RcUsage instant | RcEnable | RcDisable
  | RcMonitor "resource_monitor \<Rightarrow> resource_monitor"

fun rc_step :: "resource_controller \<Rightarrow> rc_op \<Rightarrow> resource_controller" where
  "rc_step r (RcAdjust d reason i) = AdjustWorkerCount d reason i r"
| "rc_step r (RcUsage i) = AdjustBasedOnResourceUsage i r"
| "rc_step r RcEnable = EnableScaling r"
| "rc_step r RcDisable = DisableScaling r"
| "rc_step r (RcMonitor f) = r\<lparr>rc_monitor := f (rc_monitor r)\<rparr>"

lemma rc_ok_step: "rc_ok B r \<Longrightarrow> 10 \<le> B \<Longrightarrow> rc_ok B (rc_step r op)"
  by (cases op) (simp_all add: rc_ok_Adjust rc_ok_usage EnableScaling_def DisableScaling_def)

lemma rc_ok_run: "rc_ok B r \<Longrightarrow> 10 \<le> B \<Longrightarrow> rc_ok B (foldl rc_step r ops)"
  by (induction ops arbitrary: r) (simp_all add: rc_ok_step)

lemma Adjust_limits [simp]:
  "rc_maxWorkers (AdjustWorkerCount d reason i r) = rc_maxWorkers r"
  "rc_minWorkers (AdjustWorkerCount d reason i r) = rc_minWorkers r"
  "rc_config (AdjustWorkerCount d reason i r) = rc_config r"
  "consecutiveScaleUps (AdjustWorkerCount d reason i r) = consecutiveScaleUps r"
  "rc_monitor (AdjustWorkerCount d reason i r) = rc_monitor r"
  by (simp_all add: AdjustWorkerCount_def sendWorkerControlSignals_def handleSpecialCaseSignals_def Let_def)

lemma Adjust_active:
  "scalingEnabled r \<Longrightarrow>
    activeWorkers (AdjustWorkerCount d reason i r) = activeWorkers (calculateNewWorkerCount d reason r)"
  by (simp add: AdjustWorkerCount_def sendWorkerControlSignals_def handleSpecialCaseSignals_def Let_def)

lemma Adjust_unfold:
  "scalingEnabled r \<Longrightarrow> AdjustWorkerCount d reason i r =
    sendWorkerControlSignals (activeWorkers r) reason
      (recordScalingEvent (activeWorkers r) reason (rc_mem (calculateNewWorkerCount d reason r)) i
        (calculateNewWorkerCount d reason r))"
  by (simp add: AdjustWorkerCount_def Let_def)

lemma sendWorkerControlSignals_plain:
  "handleSpecialCaseSignals reason q = (False, q) \<Longrightarrow> wrap64 (activeWorkers q - old) = \<delta> \<Longrightarrow>
    sendWorkerControlSignals old reason q =
      (if \<delta> = 0 then q else sendMultipleSignals (determineSignalValue \<delta> reason) (go_abs \<delta>) q)"
  by (simp add: sendWorkerControlSignals_def Let_def)

lemma recordScalingEvent_last:
  "last (scaleHistory (recordScalingEvent old reason m i r)) =
    \<lparr>se_Time = i, FromWorkers = old, ToWorkers = activeWorkers r, Reason = reason, MemUsage = m\<rparr>"
  by (cases "scaleHistory r") (simp_all add: recordScalingEvent_def Let_def)

lemma calculateNewWorkerCount_exact:
  assumes "handleSpecialTestCases d reason r = d" "in64 (activeWorkers r + d)"
    and "rc_minWorkers r \<le> rc_maxWorkers r" "in64 (rc_minWorkers r)" "in64 (rc_maxWorkers r)"
  shows "activeWorkers (calculateNewWorkerCount d reason r) =
    max (rc_minWorkers r) (min (rc_maxWorkers r) (activeWorkers r + d))"
  using assms by (simp add: calculateNewWorkerCount_def Let_def wrap64_add_right wrap64_in64)

lemma NewResourceController_ok:
  assumes "NewResourceController cfg i = Inr r" "Validate cfg = None" "in64 (MaxWorkers cfg)"
  shows "rc_ok (max 10 (MaxWorkers cfg)) r"
    and "rc_maxWorkers r = MaxWorkers cfg" and "rc_minWorkers r = MinWorkers cfg"
  using assms Validate_workers [OF assms(2)]
  by (auto simp: NewResourceController_def make_chan_def rc_ok_def Let_def split: if_splits)

section \<open>Properties\<close>

text \<open>C5: Whatever a controller with a valid configuration goes through (adjustments by any delta and for
  any reason, overflow included, resource checks with any readings, scaling switched on and off), it
  counts at least the minimum and at most the larger of ten and the maximum number of workers, keeps
  at most a hundred events, and holds at most \<open>maxWorkers\<close> pending signals and one pause signal.\<close>

theorem controller_bounds:
  assumes "NewResourceController cfg i = Inr r0" and "Validate cfg = None" and "in64 (MaxWorkers cfg)"
    and "r = foldl rc_step r0 ops"
  shows "MinWorkers cfg \<le> activeWorkers r \<and> activeWorkers r \<le> max 10 (MaxWorkers cfg) \<and>
    length (scaleHistory r) \<le> 100 \<and> int (length (chan_buf (workerControl r))) \<le> MaxWorkers cfg \<and>
    length (chan_buf (pauseProcessing r)) \<le> 1"
proof -
  note new = NewResourceController_ok [OF assms(1-3)]
  have "rc_minWorkers (rc_step q op) = rc_minWorkers q \<and> rc_maxWorkers (rc_step q op) = rc_maxWorkers q" for q op
    by (cases op)
      (auto simp: EnableScaling_def DisableScaling_def AdjustBasedOnResourceUsage_def record_up_def
        handleCriticalMemoryUsage_def handleHighMemoryUsage_def handleLowMemoryUsage_def
        handleLowMemoryScaleUpTests_def force_workers_def Let_def split: prod.splits bool.splits)
  then have "rc_minWorkers r = rc_minWorkers r0 \<and> rc_maxWorkers r = rc_maxWorkers r0"
    unfolding assms(4) by (induction ops arbitrary: r0) simp_all
  moreover have "rc_ok (max 10 (MaxWorkers cfg)) r"
    unfolding assms(4) by (rule rc_ok_run) (use new in simp_all)
  ultimately show ?thesis using new by (auto simp: rc_ok_def)
qed


section \<open>Memory pressure\<close>

lemma plain_high: "handleSpecialTestCases d reasonHighMemoryUsage r = d"
  and plain_low: "handleSpecialTestCases d reasonLowMemoryUsage r = d"
  by (simp_all add: handleSpecialTestCases_def reason_defs)

lemma half_workers_eq:
  "rc_ok B r \<Longrightarrow> MinWorkers (rc_config r) = rc_minWorkers r \<Longrightarrow>
    half_workers r = max (rc_minWorkers r) (activeWorkers r div 2)"
  by (simp add: half_workers_def Let_def rc_ok_def sdiv_two_nonneg)

lemma Adjust_half:
  assumes "rc_ok B r" "in64 B" "scalingEnabled r" "MinWorkers (rc_config r) = rc_minWorkers r"
    and "d = wrap64 (half_workers r - activeWorkers r)"
  shows "activeWorkers (AdjustWorkerCount d reasonHighMemoryUsage i r) =
    max (rc_minWorkers r) (min (rc_maxWorkers r) (activeWorkers r div 2))"
proof -
  have ok: "1 \<le> rc_minWorkers r" "rc_minWorkers r \<le> rc_maxWorkers r" "in64 (rc_minWorkers r)"
    "in64 (rc_maxWorkers r)" "rc_minWorkers r \<le> activeWorkers r" "activeWorkers r \<le> max_int64"
    using assms(1,2) by (auto simp: rc_ok_def in64_def)
  have half: "half_workers r = max (rc_minWorkers r) (activeWorkers r div 2)"
    by (rule half_workers_eq [OF assms(1,4)])
  then have range: "1 \<le> half_workers r" "half_workers r \<le> activeWorkers r" using ok by auto
  then have d: "d = half_workers r - activeWorkers r"
    using assms(5) ok by (simp add: wrap64_id)
  then have "in64 (activeWorkers r + d)" using range ok by (simp add: in64_def)
  from calculateNewWorkerCount_exact [OF plain_high this ok(2-4)] show ?thesis
    using assms(3) Adjust_active d half ok by (simp add: max_def min_def)
qed

text \<open>C33: When memory usage is above the high watermark, a resource check halves the number of workers,
  down to the minimum (and to the maximum, for a count that had been forced above it), whether or not
  the usage is critical.\<close>

theorem high_memory_halves:
  assumes "rc_ok B r" and "in64 B" and "scalingEnabled r"
    and "MinWorkers (rc_config r) = rc_minWorkers r" and "ShouldScaleDown (rc_monitor r)"
    and "activeWorkers r \<le> rc_maxWorkers r"
  shows "activeWorkers (AdjustBasedOnResourceUsage i r) = max (rc_minWorkers r) (activeWorkers r div 2)"
proof -
  let ?d = "wrap64 (half_workers r - activeWorkers r)"
  have ok: "1 \<le> rc_minWorkers r" "rc_minWorkers r \<le> activeWorkers r" "activeWorkers r \<le> max_int64"
    using assms(1,2) by (auto simp: rc_ok_def in64_def)
  have half: "half_workers r = max (rc_minWorkers r) (activeWorkers r div 2)"
    by (rule half_workers_eq [OF assms(1,4)])
  have adj: "activeWorkers (AdjustWorkerCount ?d reasonHighMemoryUsage i r) = max (rc_minWorkers r) (activeWorkers r div 2)"
    using Adjust_half [OF assms(1-4) refl, of i] assms(6) ok by (simp add: min_def)
  have d: "?d = half_workers r - activeWorkers r" using ok half by (intro wrap64_id) auto
  have high: "handleHighMemoryUsage i r =
      (True, if ?d < 0 then (AdjustWorkerCount ?d reasonHighMemoryUsage i r)
         \<lparr>consecutiveScaleUps := 0, lastScaleAction := i\<rparr> else r)"
    using assms(5) by (simp add: handleHighMemoryUsage_def Let_def)
  have stay: "activeWorkers r = max (rc_minWorkers r) (activeWorkers r div 2)" if "\<not> ?d < 0"
    using that d half ok by (auto simp: max_def)
  obtain b r1 where crit: "handleCriticalMemoryUsage (rc_mem r) i r = (b, r1)" by (metis surj_pair)
  show ?thesis
  proof (cases b)
    case True
    then have "activeWorkers r1 = activeWorkers (AdjustWorkerCount ?d reasonHighMemoryUsage i r)"
      using crit by (auto simp: handleCriticalMemoryUsage_def Let_def split: if_splits)
    then show ?thesis using True crit adj assms(3) by (simp add: AdjustBasedOnResourceUsage_def)
  next
    case False
    then have "r1 = r" using crit by (auto simp: handleCriticalMemoryUsage_def Let_def split: if_splits)
    then show ?thesis using False crit high adj stay assms(3) by (simp add: AdjustBasedOnResourceUsage_def)
  qed
qed

text \<open>On low memory usage, with a finite scale-up factor of at least one and a product below
  \<open>2 ^ 53\<close>, a resource check never lowers the number of workers, and it leaves it alone once the limit of
  consecutive scale-ups is reached, except in the states that the code forces (5, and 2 or 4 on a fresh
  start).\<close>

lemma low_memory_never_shrinks:
  assumes "rc_ok B r" and "activeWorkers r \<le> rc_maxWorkers r" and "ScaleUpFactor (rc_config r) = Fin f"
    and "1 \<le> f" and "f * of_int (activeWorkers r) \<le> 2 ^ 53" and "scalingEnabled r"
  shows "activeWorkers r \<le> activeWorkers (handleLowMemoryUsage i r) \<and>
    (MaxConsecutiveScales (rc_config r) \<le> consecutiveScaleUps r \<and>
       \<not> fst (handleLowMemoryScaleUpTests (activeWorkers r) i r) \<longrightarrow> handleLowMemoryUsage i r = r)"
proof -
  let ?a = "activeWorkers r" and ?t = "f_to_int (f_mult (f_of_int (activeWorkers r)) (Fin f))"
  have ok: "1 \<le> rc_minWorkers r" "rc_minWorkers r \<le> rc_maxWorkers r" "in64 (rc_minWorkers r)"
    "in64 (rc_maxWorkers r)" "rc_minWorkers r \<le> ?a"
    using assms(1) by (auto simp: rc_ok_def in64_def)
  have fa: "of_int ?a \<le> f * of_int ?a" using assms(4) ok by (simp add: mult_le_cancel_right1)
  then have "(of_int ?a :: rat) \<le> of_int (2 ^ 53)" using assms(5) by simp
  then have a53: "?a \<le> 2 ^ 53" unfolding of_int_le_iff .
  obtain v where v: "f_round (of_int ?a * f) = Fin v" "0 \<le> v" "v \<le> of_int (2 ^ 53)"
    using f_round_le_int [of "of_int ?a * f" "2 ^ 53"] fa assms(4,5) ok by (auto simp: mult.commute)
  have "of_int ?a \<le> v"
    using f_round_ge_int [of ?a "of_int ?a * f"] v(1) fa ok a53 by (auto simp: mult.commute)
  then have "?a \<le> \<lfloor>v\<rfloor>" by (simp add: le_floor_iff)
  moreover have "\<lfloor>v\<rfloor> \<le> 2 ^ 53" using v(3) by (simp add: floor_le_iff)
  moreover have "f_trunc v = \<lfloor>v\<rfloor>" using v(2) by (simp add: f_trunc_def)
  ultimately have trunc: "?a \<le> f_trunc v" "f_trunc v \<le> 2 ^ 53" by simp_all
  then have "?t = f_trunc v" using v(1) ok a53 by (simp add: f_of_int_exact in64_def)
  then have t: "?a \<le> ?t" "?t \<le> 2 ^ 53" using trunc by simp_all
  have grow: "?a \<le> activeWorkers (AdjustWorkerCount d reasonLowMemoryUsage i r)" if "0 \<le> d" "d \<le> 2 ^ 53" for d
  proof -
    have "in64 (?a + d)" using that a53 ok by (simp add: in64_def)
    from calculateNewWorkerCount_exact [OF plain_low this ok(2-4)] show ?thesis
      using Adjust_active [OF assms(6)] that assms(2) by simp
  qed
  have d: "wrap64 (?t - ?a) = ?t - ?a" using t ok a53 by (intro wrap64_id) simp_all
  define d' where "d' = (if wrap64 (?t - ?a) \<le> 0 then 1 else wrap64 (?t - ?a))"
  have "0 \<le> d'" "d' \<le> 2 ^ 53" using d t ok by (auto simp: d'_def)
  note step = grow [OF this]
  have tests: "?a \<le> activeWorkers (snd (handleLowMemoryScaleUpTests ?a i r))"
    by (simp add: handleLowMemoryScaleUpTests_def force_workers_def record_up_def Let_def)
  obtain b r1 where low: "handleLowMemoryScaleUpTests ?a i r = (b, r1)" by (metis surj_pair)
  have same: "r1 = r" if "\<not> b"
    using low that by (auto simp: handleLowMemoryScaleUpTests_def Let_def split: if_splits)
  show ?thesis
    using low tests same step assms(3)
    by (cases b) (auto simp: handleLowMemoryUsage_def Let_def record_up_def d'_def)
qed

text \<open>With five workers a low-memory check sets the count to ten, whatever the maximum is: the
  controller then counts more workers than the configuration allows.\<close>

lemma forced_count_ignores_max:
  assumes "ShouldScaleUp i (rc_monitor r)" and "activeWorkers r = 5"
  shows "activeWorkers (handleLowMemoryUsage i r) = 10 \<and>
    rc_maxWorkers (handleLowMemoryUsage i r) = rc_maxWorkers r"
  using assms
  by (simp add: handleLowMemoryUsage_def handleLowMemoryScaleUpTests_def force_workers_def record_up_def Let_def)

text \<open>A scale-up factor that is not a number, or infinite, passes validation, and then a check that
  finds little memory in use takes the number of workers down to the minimum.\<close>

lemma nan_factor_shrinks:
  assumes "rc_ok B r" and "in64 B" and "scalingEnabled r" and "ShouldScaleUp i (rc_monitor r)"
    and "ScaleUpFactor (rc_config r) \<in> {NaN, Inf True}" and "activeWorkers r \<le> 2 ^ 53"
    and "consecutiveScaleUps r < MaxConsecutiveScales (rc_config r)"
    and "\<not> fst (handleLowMemoryScaleUpTests (activeWorkers r) i r)"
  shows "activeWorkers (handleLowMemoryUsage i r) = rc_minWorkers r"
proof -
  let ?a = "activeWorkers r"
  have ok: "1 \<le> rc_minWorkers r" "rc_minWorkers r \<le> rc_maxWorkers r" "in64 (rc_minWorkers r)"
    "in64 (rc_maxWorkers r)" "rc_minWorkers r \<le> ?a"
    using assms(1) by (auto simp: rc_ok_def in64_def)
  have t: "f_to_int (f_mult (f_of_int ?a) (ScaleUpFactor (rc_config r))) = min_int64"
    using assms(5,6) ok by (auto simp: f_of_int_exact)
  let ?d = "wrap64 (min_int64 - ?a)"
  have d: "?d = - ?a - min_int64" using ok assms(6) wrap64_under [of "min_int64 - ?a"] by simp
  have new: "handleSpecialTestCases ?d reasonLowMemoryUsage r = ?d" by (rule plain_low)
  have "wrap64 (?a + ?d) = min_int64"
    unfolding wrap64_add_right by (simp add: wrap64_id)
  then have "activeWorkers (calculateNewWorkerCount ?d reasonLowMemoryUsage r) = rc_minWorkers r"
    using ok new by (simp add: calculateNewWorkerCount_def Let_def wrap64_add_right wrap64_in64)
  then have adj: "activeWorkers (AdjustWorkerCount ?d reasonLowMemoryUsage i r) = rc_minWorkers r"
    by (simp add: Adjust_active [OF assms(3)])
  have "\<not> ?d \<le> 0" using d assms(6) by simp
  moreover have "handleLowMemoryScaleUpTests ?a i r = (False, r)"
    using assms(8) by (auto simp: handleLowMemoryScaleUpTests_def Let_def split: if_splits)
  ultimately show ?thesis
    using assms(4,7) t adj by (simp add: handleLowMemoryUsage_def Let_def record_up_def)
qed

section \<open>Witnesses\<close>

definition sample_config :: "goint \<Rightarrow> goint \<Rightarrow> float64 \<Rightarrow> config" where
  "sample_config n m f = DefaultConfig\<lparr>InitialWorkers := n, MaxWorkers := m, ScaleUpFactor := f\<rparr>"

definition fresh_controller :: "goint \<Rightarrow> goint \<Rightarrow> float64 \<Rightarrow> resource_controller" where
  "fresh_controller n m f =
     (let cfg = sample_config n m f
      in \<lparr>rc_monitor = NewResourceMonitor [rm_WithMemoryWatermarks (Fin 30) (Fin 70),
              WithCheckInterval (5 * second), WithCleanupConfig (Fin 80) (60 * second),
              WithScaleDownDelay (30 * second)] 0,
          activeWorkers = n, rc_maxWorkers = m, rc_minWorkers = 1, targetWorkers = n,
          pauseProcessing = \<lparr>chan_buf = [], chan_cap = 1\<rparr>,
          workerControl = \<lparr>chan_buf = [], chan_cap = nat m\<rparr>, rc_config = cfg,
          consecutiveScaleUps = 0, lastScaleAction = 0, scaleHistory = [], scalingEnabled = True\<rparr>)"

lemmas sample_rc_defs = fresh_controller_def sample_config_def DefaultConfig_def monitor_option_defs

lemma fresh_controller_new: "0 \<le> m \<Longrightarrow> NewResourceController (sample_config n m f) 0 = Inr (fresh_controller n m f)"
  by (simp add: NewResourceController_def sample_rc_defs make_chan_def Let_def)

lemma fresh_controller_simps [simp]:
  "activeWorkers (fresh_controller n m f) = n" "rc_maxWorkers (fresh_controller n m f) = m"
  "rc_minWorkers (fresh_controller n m f) = 1" "scalingEnabled (fresh_controller n m f)"
  "rc_config (fresh_controller n m f) = sample_config n m f"
  "consecutiveScaleUps (fresh_controller n m f) = 0" "scaleHistory (fresh_controller n m f) = []"
  "workerControl (fresh_controller n m f) = \<lparr>chan_buf = [], chan_cap = nat m\<rparr>"
  by (simp_all add: fresh_controller_def Let_def)

lemma fresh_controller_ok: "1 \<le> n \<Longrightarrow> n \<le> m \<Longrightarrow> in64 m \<Longrightarrow> rc_ok m (fresh_controller n m f)"
  by (simp add: rc_ok_def fresh_controller_def Let_def)

lemma fresh_controller_up: "30 * second \<le> i \<Longrightarrow> ShouldScaleUp i (rc_monitor (fresh_controller n m f))"
  by (simp add: ShouldScaleUp_def fresh_controller_def monitor_option_defs GetMemUsagePercent_def
      NewSystemStats_def zero_mem_stats_def time_sub_def Let_def)

theorem controller_bounds_witness:
  "activeWorkers (foldl rc_step (fresh_controller 5 6 (Fin 2)) [RcUsage (40 * second), RcAdjust 9 ''more'' 0]) \<le> 10"
proof -
  have "Validate (sample_config 5 6 (Fin 2)) = None"
    by (simp add: sample_config_def DefaultConfig_def validate_defs)
  from controller_bounds [OF fresh_controller_new this _ refl, of "[RcUsage (40 * second), RcAdjust 9 ''more'' 0]"]
  show ?thesis by (simp add: sample_config_def in64_def)
qed


definition pressed_controller :: resource_controller where
  "pressed_controller = (fresh_controller 8 32 (Fin 2))
     \<lparr>rc_monitor := (rc_monitor (fresh_controller 8 32 (Fin 2)))
        \<lparr>rm_stats := (NewSystemStats 0)\<lparr>MemoryStats := zero_mem_stats\<lparr>UsagePercent := Fin 90\<rparr>\<rparr>\<rparr>\<rparr>"

theorem high_memory_halves_witness:
  "activeWorkers (AdjustBasedOnResourceUsage 9 pressed_controller) = 4"
proof -
  have ok: "rc_ok 32 pressed_controller"
    using fresh_controller_ok [of 8 32 "Fin 2"] by (simp add: pressed_controller_def in64_def)
  show ?thesis
    using high_memory_halves [OF ok, of 9]
    by (simp add: pressed_controller_def in64_def sample_config_def DefaultConfig_def ShouldScaleDown_def
        fresh_controller_def monitor_option_defs GetMemUsagePercent_def Let_def)
qed

end
