(* ===== verification/Manager.thy ===== *)
theory Manager
  imports Pool Resource_Control
begin

text \<open>
  The manager (\<open>pkg/manager/manager.go\<close>).

  The operations of the manager on its state, with the pool and the resource controller inside it;
  where an operation can block, the result says so.  The goroutines that these operations run on
  interleave in the theory \<open>Manager_System\<close>.
\<close>

section \<open>State\<close>

record manager_stats =
  tasksSubmitted :: int
  tasksCompleted :: int
  tasksFailed :: int
  tasksInProgress :: int
  totalTaskTime :: int
  avgProcessTime :: duration
  peakWorkerCount :: goint

definition zero_stats :: manager_stats where
  "zero_stats = \<lparr>tasksSubmitted = 0, tasksCompleted = 0, tasksFailed = 0, tasksInProgress = 0,
     totalTaskTime = 0, avgProcessTime = 0, peakWorkerCount = 0\<rparr>"

text \<open>\<open>m_closed\<close>: \<open>shutdownCh\<close> is closed; \<open>m_processing\<close> and \<open>m_monitoring\<close>: the two goroutines run;
  \<open>m_callbacks\<close>: the callbacks launched so far.\<close>

record ('o, 'cb, 'w) manager =
  m_config :: config
  m_rc :: resource_controller
  m_taskQueue :: "('o, 'cb) task chan"
  m_resultQueue :: "('o, 'cb) result chan"
  m_pool :: "'w pool"
  m_started :: bool
  m_stats :: manager_stats
  m_closed :: bool
  m_processing :: bool
  m_monitoring :: bool
  m_callbacks :: "('cb \<times> ('o, 'cb) result) list"

section \<open>Creation, start and stop\<close>

text \<open>The deferred \<open>cancel\<close> runs when \<open>NewManager\<close> returns, so the pool gets a context that is done.\<close>

definition NewManager ::
  "config \<Rightarrow> instant \<Rightarrow> panic_val + (go_error + ('o, 'cb, 'w) manager)" where
  "NewManager cfg i =
     (case Validate cfg of
        Some e \<Rightarrow> Inr (Inl (Errorf ''invalid configuration: '' e))
      | None \<Rightarrow>
          (case make_chan (MaxTasksInQueue cfg) of
             Inl v \<Rightarrow> Inl v
           | Inr taskQueue \<Rightarrow>
               (case make_chan (MaxTasksInQueue cfg) of
                  Inl v \<Rightarrow> Inl v
                | Inr resultQueue \<Rightarrow>
                    (case NewPool background (InitialWorkers cfg) (MaxWorkers cfg) of
                       Inl e \<Rightarrow> Inr (Inl (Errorf ''failed to create worker pool: '' e))
                     | Inr pool \<Rightarrow>
                         (case NewResourceController cfg i of
                            Inl v \<Rightarrow> Inl v
                          | Inr rc \<Rightarrow>
                              Inr (Inr \<lparr>m_config = cfg, m_rc = rc, m_taskQueue = taskQueue,
                                m_resultQueue = resultQueue,
                                m_pool = pool\<lparr>p_ctx := cancel_at (p_ctx pool) i\<rparr>,
                                m_started = False, m_stats = zero_stats, m_closed = False,
                                m_processing = False, m_monitoring = False, m_callbacks = []\<rparr>))))))"

definition mgr_Start ::
  "'w pool_env \<Rightarrow> ('o, 'cb, 'w) manager \<Rightarrow> go_error option \<times> ('o, 'cb, 'w) manager" where
  "mgr_Start env m =
     (if m_started m then (Some (ErrorNew ''manager already started''), m)
      else case pool_Start env (m_pool m) of
             (Some e, p) \<Rightarrow> (Some (Errorf ''failed to start worker pool: '' e), m\<lparr>m_pool := p\<rparr>)
           | (None, p) \<Rightarrow>
               (None, m\<lparr>m_pool := p, m_started := True, m_processing := True, m_monitoring := True\<rparr>))"

text \<open>Closing \<open>shutdownCh\<close> a second time panics.\<close>

definition mgr_Stop ::
  "'w pool_env \<Rightarrow> instant \<Rightarrow> ('o, 'cb, 'w) manager \<Rightarrow> panic_val option \<times> ('o, 'cb, 'w) manager" where
  "mgr_Stop env i m =
     (if \<not> m_started m then (None, m)
      else if m_closed m then (Some (PanicError (ErrorNew ''close of closed channel'')), m)
      else (None, m\<lparr>m_pool := pool_Stop env i (m_pool m), m_started := False, m_closed := True\<rparr>))"

section \<open>Submitting\<close>

definition submit_check ::
  "('o, 'cb) task \<Rightarrow> instant \<Rightarrow> ('o, 'cb, 'w) manager \<Rightarrow> go_error option" where
  "submit_check t i m =
     (if \<not> m_started m then Some (ErrorNew ''manager not started'')
      else map_option (Errorf ''invalid task: '') (t_validate t i))"

text \<open>The \<open>select\<close> of \<open>SubmitWithTimeout\<close> when nothing else happens meanwhile: the coin decides when the
  queue has room and the manager shuts down; \<open>None\<close> blocks for ever.\<close>

definition submit_select ::
  "duration \<Rightarrow> bool \<Rightarrow> ('o, 'cb, 'w) manager \<Rightarrow> go_error option option" where
  "submit_select timeout coin m =
     (let room = length (chan_buf (m_taskQueue m)) < chan_cap (m_taskQueue m);
          shutdown = Some (Some (ErrorNew ''manager is shutting down''))
      in if room \<and> m_closed m then (if coin then Some None else shutdown)
         else if room then Some None
         else if m_closed m then shutdown
         else if timeout > 0 then Some (Some (ErrorNew ''timeout submitting task to queue''))
         else None)"

definition enqueue :: "('o, 'cb) task \<Rightarrow> ('o, 'cb, 'w) manager \<Rightarrow> ('o, 'cb, 'w) manager" where
  "enqueue t m = m\<lparr>m_taskQueue := fst (try_send (m_taskQueue m) t)\<rparr>"

definition count_submission :: "('o, 'cb, 'w) manager \<Rightarrow> ('o, 'cb, 'w) manager" where
  "count_submission m =
     (let st = m_stats m
      in m\<lparr>m_stats := st\<lparr>tasksSubmitted := wrap64 (tasksSubmitted st + 1),
                         tasksInProgress := wrap32 (tasksInProgress st + 1)\<rparr>\<rparr>)"

definition SubmitWithTimeout ::
  "('o, 'cb) task \<Rightarrow> duration \<Rightarrow> instant \<Rightarrow> bool \<Rightarrow> ('o, 'cb, 'w) manager \<Rightarrow>
    go_error option option \<times> ('o, 'cb, 'w) manager" where
  "SubmitWithTimeout t timeout i coin m =
     (case submit_check t i m of
        Some e \<Rightarrow> (Some (Some e), m)
      | None \<Rightarrow>
          (case submit_select timeout coin m of
             Some None \<Rightarrow> (Some None, count_submission (enqueue t m))
           | other \<Rightarrow> (other, m)))"

definition Submit ::
  "('o, 'cb) task \<Rightarrow> instant \<Rightarrow> bool \<Rightarrow> ('o, 'cb, 'w) manager \<Rightarrow>
    go_error option option \<times> ('o, 'cb, 'w) manager" where
  "Submit t i coin m = SubmitWithTimeout t 0 i coin m"

text \<open>The number of tasks submitted, and how the batch ended (\<open>None\<close> when it blocks).\<close>

fun submit_batch_loop ::
  "('o, 'cb) task list \<Rightarrow> goint \<Rightarrow> instant \<Rightarrow> (nat \<Rightarrow> bool) \<Rightarrow> ('o, 'cb, 'w) manager \<Rightarrow>
    (goint \<times> go_error option option) \<times> ('o, 'cb, 'w) manager" where
  "submit_batch_loop [] n i coin m = ((n, Some None), m)"
| "submit_batch_loop (t # ts) n i coin m =
     (case Submit t i (coin (nat n)) m of
        (Some None, m') \<Rightarrow> submit_batch_loop ts (n + 1) i coin m'
      | (other, m') \<Rightarrow> ((n, other), m'))"

definition SubmitBatch ::
  "('o, 'cb) task list \<Rightarrow> instant \<Rightarrow> (nat \<Rightarrow> bool) \<Rightarrow> ('o, 'cb, 'w) manager \<Rightarrow>
    (goint \<times> go_error option option) \<times> ('o, 'cb, 'w) manager" where
  "SubmitBatch ts i coin m =
     (if \<not> m_started m then ((0, Some (Some (ErrorNew ''manager not started''))), m)
      else submit_batch_loop ts 0 i coin m)"

section \<open>Results\<close>

definition result_callback :: "('o, 'cb) result \<Rightarrow> 'cb option" where
  "result_callback r =
     (case r_Task r of
        None \<Rightarrow> None
      | Some t \<Rightarrow> (case t_dyn t of DynSimpleTask cb \<Rightarrow> cb | _ \<Rightarrow> None))"

definition handleResult :: "('o, 'cb) result \<Rightarrow> ('o, 'cb, 'w) manager \<Rightarrow> ('o, 'cb, 'w) manager" where
  "handleResult r m =
     (let st = m_stats m;
          st1 = (if r_Err r \<noteq> None then st\<lparr>tasksFailed := wrap64 (tasksFailed st + 1)\<rparr>
                 else st\<lparr>tasksCompleted := wrap64 (tasksCompleted st + 1)\<rparr>);
          st2 = st1\<lparr>tasksInProgress := wrap32 (tasksInProgress st1 - 1),
                    totalTaskTime := wrap64 (totalTaskTime st1 + r_Duration r)\<rparr>;
          st3 = (if tasksCompleted st2 > 0
                 then st2\<lparr>avgProcessTime := totalTaskTime st2 sdiv tasksCompleted st2\<rparr> else st2)
      in m\<lparr>m_stats := st3,
           m_callbacks := m_callbacks m @
             (case result_callback r of Some cb \<Rightarrow> [(cb, r)] | None \<Rightarrow> [])\<rparr>)"

section \<open>Scaling, statistics and waiting\<close>

text \<open>\<open>monitorResources\<close>: creating the ticker panics on an interval that is not positive; afterwards
  every tick is one check.\<close>

definition monitor_ticker :: "('o, 'cb, 'w) manager \<Rightarrow> panic_val option" where
  "monitor_ticker m =
     (if MonitorInterval (m_config m) \<le> 0
      then Some (PanicError (ErrorNew ''non-positive interval for NewTicker'')) else None)"

definition monitor_tick :: "instant \<Rightarrow> ('o, 'cb, 'w) manager \<Rightarrow> ('o, 'cb, 'w) manager" where
  "monitor_tick i m = m\<lparr>m_rc := AdjustBasedOnResourceUsage i (m_rc m)\<rparr>"

definition EnableDynamicScaling :: "('o, 'cb, 'w) manager \<Rightarrow> ('o, 'cb, 'w) manager" where
  "EnableDynamicScaling m = m\<lparr>m_rc := EnableScaling (m_rc m)\<rparr>"

definition DisableDynamicScaling :: "('o, 'cb, 'w) manager \<Rightarrow> ('o, 'cb, 'w) manager" where
  "DisableDynamicScaling m = m\<lparr>m_rc := DisableScaling (m_rc m)\<rparr>"

definition ForceScaleWorkers :: "goint \<Rightarrow> instant \<Rightarrow> ('o, 'cb, 'w) manager \<Rightarrow> ('o, 'cb, 'w) manager" where
  "ForceScaleWorkers n i m = m\<lparr>m_rc := AdjustWorkerCount n ''manual scaling'' i (m_rc m)\<rparr>"

record manager_stats_view =
  ms_TasksSubmitted :: int
  ms_TasksCompleted :: int
  ms_TasksFailed :: int
  ms_TasksInProgress :: int
  ms_AvgProcessTime :: duration
  ms_PeakWorkerCount :: goint

definition mgr_GetStats :: "('o, 'cb, 'w) manager \<Rightarrow> manager_stats_view" where
  "mgr_GetStats m =
     (let st = m_stats m
      in \<lparr>ms_TasksSubmitted = tasksSubmitted st, ms_TasksCompleted = tasksCompleted st,
          ms_TasksFailed = tasksFailed st, ms_TasksInProgress = tasksInProgress st,
          ms_AvgProcessTime = avgProcessTime st, ms_PeakWorkerCount = peakWorkerCount st\<rparr>)"

definition GetWorkerCount :: "('o, 'cb, 'w) manager \<Rightarrow> goint" where
  "GetWorkerCount m = pool_Size (m_pool m)"

definition GetTaskQueueLength :: "('o, 'cb, 'w) manager \<Rightarrow> goint" where
  "GetTaskQueueLength m = int (length (chan_buf (m_taskQueue m)))"

definition GetResultQueueLength :: "('o, 'cb, 'w) manager \<Rightarrow> goint" where
  "GetResultQueueLength m = int (length (chan_buf (m_resultQueue m)))"

definition wait_check :: "('o, 'cb, 'w) manager \<Rightarrow> bool" where
  "wait_check m \<longleftrightarrow> tasksInProgress (m_stats m) = 0 \<and> GetTaskQueueLength m = 0"

text \<open>\<open>WaitForCompletion\<close> from instant \<open>i\<close>, for the states that the manager is in at the ticks that
  follow, every 100 milliseconds; \<open>None\<close> when the ticks are used up.\<close>

fun WaitForCompletion ::
  "ctx \<Rightarrow> instant \<Rightarrow> bool \<Rightarrow> ('o, 'cb, 'w) manager list \<Rightarrow> go_error option option" where
  "WaitForCompletion c i coin [] = None"
| "WaitForCompletion c i coin (m # ms) =
     (let tick = i + 100 * millisecond;
          check = (if wait_check m then Some None else WaitForCompletion c tick coin ms)
      in case done_at c of
           None \<Rightarrow> check
         | Some (d, e) \<Rightarrow>
             if d < tick then Some (Some e)
             else if d = tick then (if coin then Some (Some e) else check)
             else check)"

section \<open>Facts\<close>

lemma wrap64_suc: "wrap64 (wrap64 x + 1) = wrap64 (x + 1)"
  using wrap64_add_right [of 1 x] by (simp add: add.commute)

lemma wrap32_suc: "wrap32 (wrap32 x + 1) = wrap32 (x + 1)" "wrap32 (wrap32 x - 1) = wrap32 (x - 1)"
  using wrap32_add_left [of x 1] wrap32_add_left [of x "- 1"] by simp_all

lemma handleResult_stats:
  "tasksSubmitted (m_stats (handleResult r m)) = tasksSubmitted (m_stats m)"
  "tasksCompleted (m_stats (handleResult r m)) =
     (if r_Err r = None then wrap64 (tasksCompleted (m_stats m) + 1) else tasksCompleted (m_stats m))"
  "tasksFailed (m_stats (handleResult r m)) =
     (if r_Err r = None then tasksFailed (m_stats m) else wrap64 (tasksFailed (m_stats m) + 1))"
  "tasksInProgress (m_stats (handleResult r m)) = wrap32 (tasksInProgress (m_stats m) - 1)"
  by (cases "r_Err r"; simp add: handleResult_def Let_def)+

lemma counter_steps:
  "wrap64 (wrap64 (int n) + 1) = wrap64 (int (Suc n))"
  "wrap32 (wrap32 (int n - int k) + 1) = wrap32 (int (Suc n) - int k)"
  "wrap32 (wrap32 (int n - int k) - 1) = wrap32 (int n - int (Suc k))"
  unfolding wrap64_suc wrap32_suc by (simp_all add: add.commute diff_diff_eq algebra_simps)

lemma mgr_frames [simp]:
  "m_taskQueue (count_submission m) = m_taskQueue m"
  "m_resultQueue (count_submission m) = m_resultQueue m" "m_pool (count_submission m) = m_pool m"
  "m_taskQueue (handleResult r m) = m_taskQueue m" "m_resultQueue (handleResult r m) = m_resultQueue m"
  "m_pool (handleResult r m) = m_pool m" "m_stats (monitor_tick i m) = m_stats m"
  "m_taskQueue (monitor_tick i m) = m_taskQueue m" "m_resultQueue (monitor_tick i m) = m_resultQueue m"
  "m_pool (monitor_tick i m) = m_pool m" "m_stats (ForceScaleWorkers n i m) = m_stats m"
  "m_taskQueue (ForceScaleWorkers n i m) = m_taskQueue m"
  "m_resultQueue (ForceScaleWorkers n i m) = m_resultQueue m" "m_pool (ForceScaleWorkers n i m) = m_pool m"
  "m_stats (EnableDynamicScaling m) = m_stats m" "m_taskQueue (EnableDynamicScaling m) = m_taskQueue m"
  "m_resultQueue (EnableDynamicScaling m) = m_resultQueue m" "m_pool (EnableDynamicScaling m) = m_pool m"
  "m_stats (DisableDynamicScaling m) = m_stats m" "m_taskQueue (DisableDynamicScaling m) = m_taskQueue m"
  "m_resultQueue (DisableDynamicScaling m) = m_resultQueue m" "m_pool (DisableDynamicScaling m) = m_pool m"
  "m_stats (enqueue t m) = m_stats m" "m_resultQueue (enqueue t m) = m_resultQueue m"
  "m_pool (enqueue t m) = m_pool m"
  by (simp_all add: count_submission_def handleResult_def monitor_tick_def ForceScaleWorkers_def
      EnableDynamicScaling_def DisableDynamicScaling_def enqueue_def Let_def)

lemma enqueue_queue [simp]:
  "length (chan_buf (m_taskQueue m)) < chan_cap (m_taskQueue m) \<Longrightarrow>
    chan_buf (m_taskQueue (enqueue t m)) = chan_buf (m_taskQueue m) @ [t]"
  by (simp add: enqueue_def chan_simps)

lemma mgr_Start_frame:
  "mgr_Start env m = (e, m') \<Longrightarrow>
    m_stats m' = m_stats m \<and> m_taskQueue m' = m_taskQueue m \<and> m_resultQueue m' = m_resultQueue m"
  by (auto simp: mgr_Start_def split: if_splits prod.splits option.splits)

lemma mgr_Stop_frame:
  "mgr_Stop env i m = (p, m') \<Longrightarrow>
    m_stats m' = m_stats m \<and> m_taskQueue m' = m_taskQueue m \<and> m_resultQueue m' = m_resultQueue m"
  by (auto simp: mgr_Stop_def split: if_splits)

lemma NewManager_parts:
  assumes "NewManager cfg i = Inr (Inr m)"
  shows "Validate cfg = None" "m_config m = cfg" "m_stats m = zero_stats" "m_started m = False"
    "m_taskQueue m = \<lparr>chan_buf = [], chan_cap = nat (MaxTasksInQueue cfg)\<rparr>"
    "m_resultQueue m = \<lparr>chan_buf = [], chan_cap = nat (MaxTasksInQueue cfg)\<rparr>"
    "\<exists>c. p_ctx (m_pool m) = cancel_at c i" "p_started (m_pool m) = False"
    "m_closed m = False" "0 \<le> MaxTasksInQueue cfg" "m_processing m = False" "m_callbacks m = []"
    "p_nextWorkerID (m_pool m) = 0" "p_workers (m_pool m) = []"
  using assms
  by (auto simp: NewManager_def make_chan_def NewPool_def Let_def split: option.splits sum.splits if_splits)

lemma NewManager_pool_size:
  assumes "NewManager cfg i = Inr (Inr m)"
  shows "p_size (m_pool m) = InitialWorkers cfg"
  using assms Validate_workers [of cfg]
  by (auto simp: NewManager_def make_chan_def NewPool_def Let_def split: option.splits sum.splits if_splits)

text \<open>With a factory that succeeds, a new manager starts.\<close>

lemma NewManager_starts:
  assumes "NewManager cfg i = Inr (Inr m)" "factory_total env"
  obtains m' where "mgr_Start env m = (None, m')" "m_started m'" "\<not> m_closed m'" "m_processing m'"
    "m_stats m' = zero_stats" "m_taskQueue m' = m_taskQueue m" "m_resultQueue m' = m_resultQueue m"
    "m_config m' = cfg"
proof -
  note parts = NewManager_parts [OF assms(1)]
  obtain p where "add_workers env (nat (p_size (m_pool m))) (m_pool m) = (None, p)"
    using add_workers_total [OF assms(2)] by blast
  then have "mgr_Start env m = (None, m\<lparr>m_pool := p\<lparr>p_started := True\<rparr>, m_started := True,
      m_processing := True, m_monitoring := True\<rparr>)"
    by (simp add: mgr_Start_def pool_Start_def parts)
  from that [OF this] show thesis by (simp add: parts)
qed

lemma mgr_Start_workers:
  assumes "NewManager cfg i = Inr (Inr m)" and "mgr_Start env m = (None, m1)" and "factory_total env"
    and "InitialWorkers cfg \<le> 2147483647"
  shows "m_started m1" and "GetWorkerCount m1 = InitialWorkers cfg"
proof -
  note parts = NewManager_parts [OF assms(1)]
  have size: "p_size (m_pool m) = InitialWorkers cfg" using NewManager_pool_size [OF assms(1)] .
  have w: "1 \<le> InitialWorkers cfg" using Validate_workers [OF parts(1)] by simp
  have "ids_ok (m_pool m)" using parts by (simp add: ids_ok_def)
  then obtain p where p: "add_workers env (nat (p_size (m_pool m))) (m_pool m) = (None, p)"
    "p_len p = InitialWorkers cfg"
    using add_workers_success [OF assms(3), of "m_pool m" "nat (p_size (m_pool m))"] parts size assms(4) w by auto
  have "m_pool m1 = p\<lparr>p_started := True\<rparr> \<and> m_started m1"
    using assms(2) p(1) parts by (auto simp: mgr_Start_def pool_Start_def)
  then show "m_started m1" "GetWorkerCount m1 = InitialWorkers cfg"
    using p(2) by (simp_all add: GetWorkerCount_def pool_Size_def)
qed

text \<open>Configurations and a manager for the witnesses.\<close>

type_synonym sample_mgr = "(nat, unit, (nat, unit) simple_worker) manager"

definition sample_cfg :: "goint \<Rightarrow> config" where
  "sample_cfg q = DefaultConfig\<lparr>MaxTasksInQueue := q\<rparr>"

lemma sample_cfg_simps [simp]:
  "MaxTasksInQueue (sample_cfg q) = q" "InitialWorkers (sample_cfg q) = 4"
  "MonitorInterval (sample_cfg q) = 5 * second" "Validate (sample_cfg q) = None"
  by (simp_all add: sample_cfg_def DefaultConfig_def validate_defs)

lemma sample_manager:
  assumes "0 \<le> q"
  obtains m :: sample_mgr where "NewManager (sample_cfg q) 0 = Inr (Inr m)"
  using assms
  by (auto simp: NewManager_def make_chan_def NewPool_def NewResourceController_def sample_cfg_def
      DefaultConfig_def validate_defs Let_def)

definition sample_task :: "(nat, unit) task" where
  "sample_task = scripted_task 2 flaky_outs"

lemma sample_task_valid [simp]: "t_validate sample_task i = None"
  by (simp add: sample_task_def sample_defs)

section \<open>Properties\<close>

text \<open>A tick at which the context has not ended the wait.\<close>

definition waits_until :: "ctx \<Rightarrow> bool \<Rightarrow> instant \<Rightarrow> bool" where
  "waits_until c coin tick \<longleftrightarrow>
     (case done_at c of None \<Rightarrow> True | Some (d, e) \<Rightarrow> tick < d \<or> (tick = d \<and> \<not> coin))"

lemma waits_until_earlier: "waits_until c coin j \<Longrightarrow> i < j \<Longrightarrow> waits_until c coin i"
  by (auto simp: waits_until_def split: option.splits)

lemma WaitForCompletion_Cons:
  "WaitForCompletion c i coin (m # ms) =
     (if \<not> waits_until c coin (i + 100 * millisecond) then map_option (\<lambda>(d, e). Some e) (done_at c)
      else if wait_check m then Some None else WaitForCompletion c (i + 100 * millisecond) coin ms)"
  by (auto simp: waits_until_def Let_def split: option.splits)

lemma all_less_Suc2: "(\<forall>j < Suc k. P j) \<longleftrightarrow> P 0 \<and> (\<forall>j < k. P (Suc j))"
  by (auto simp: less_Suc_eq_0_disj)

text \<open>C25: How \<open>WaitForCompletion\<close> ends, for the states that the manager is in at the ticks of its timer: it
  returns nil exactly when the check succeeds at some tick before its context ends, it still waits after
  them exactly when the check failed at every tick and the context has not ended, and in the remaining
  case it returns the error of its context, which ended at one of the ticks or before.\<close>

theorem WaitForCompletion_correct:
  "(WaitForCompletion c i coin ms = Some None \<longleftrightarrow>
      (\<exists>k < length ms. wait_check (ms ! k) \<and> waits_until c coin (i + (1 + int k) * (100 * millisecond)))) \<and>
   (WaitForCompletion c i coin ms = None \<longleftrightarrow>
      (\<forall>k < length ms. \<not> wait_check (ms ! k) \<and> waits_until c coin (i + (1 + int k) * (100 * millisecond)))) \<and>
   (\<forall>e. WaitForCompletion c i coin ms = Some (Some e) \<longrightarrow>
      (\<exists>d. done_at c = Some (d, e) \<and> d \<le> i + int (length ms) * (100 * millisecond)))"
proof (induction ms arbitrary: i)
  case (Cons m ms)
  let ?t = "i + 100 * millisecond" and ?at = "\<lambda>i k. i + (1 + int k) * (100 * millisecond)"
  have shift: "?at ?t k = ?at i (Suc k)" for k by (simp add: algebra_simps)
  have first: "?at i 0 = ?t" by simp
  have later: "waits_until c coin ?t" if "waits_until c coin (?at i (Suc k))" for k
    by (rule waits_until_earlier [OF that]) simp
  note IH = Cons.IH [of ?t, unfolded shift]
  show ?case
  proof (cases "waits_until c coin ?t")
    case False
    then obtain d e where d: "done_at c = Some (d, e)" "d \<le> ?t" by (auto simp: waits_until_def split: option.splits)
    have "\<not> waits_until c coin (?at i k)" for k using False first later by (cases k) auto
    then show ?thesis using False d unfolding WaitForCompletion_Cons by auto
  next
    case True
    show ?thesis
    proof (cases "wait_check m")
      case True
      then show ?thesis using \<open>waits_until c coin ?t\<close> first unfolding WaitForCompletion_Cons
        by (auto intro: exI [of _ 0])
    next
      case False
      have eq: "WaitForCompletion c i coin (m # ms) = WaitForCompletion c ?t coin ms"
        using True False unfolding WaitForCompletion_Cons by simp
      have len: "?t + int (length ms) * (100 * millisecond) = i + int (length (m # ms)) * (100 * millisecond)"
        by (simp add: algebra_simps)
      show ?thesis
        using IH True False first unfolding eq len by (simp add: Ex_less_Suc2 all_less_Suc2)
    qed
  qed
qed simp

text \<open>The error of a submission to a stopped manager has the text of the sentinel for it, but is another
  value: \<open>errors.Is\<close> does not recognise it.\<close>

lemma submit_not_started_error:
  assumes "\<not> m_started m"
  shows "\<exists>e. SubmitWithTimeout t timeout i coin m = (Some (Some e), m) \<and>
    error_text e = error_text (Sentinel SentManagerNotStarted) \<and> \<not> errors_is e (Sentinel SentManagerNotStarted)"
  using assms by (simp add: SubmitWithTimeout_def submit_check_def)

text \<open>A manager that was stopped once cannot be stopped again after a restart: closing its shutdown
  channel a second time panics.  And every submission that passes its checks after the restart can be
  refused as if the manager were shutting down.\<close>

lemma second_stop_panics:
  assumes "m_started m" and "\<not> m_closed m" and "mgr_Stop env i m = (None, m1)"
    and "mgr_Start env m1 = (None, m2)"
  shows "mgr_Stop env j m2 = (Some (PanicError (ErrorNew ''close of closed channel'')), m2) \<and>
    submit_select timeout False m2 = Some (Some (ErrorNew ''manager is shutting down''))"
  using assms
  by (auto simp: mgr_Stop_def mgr_Start_def submit_select_def Let_def split: if_splits prod.splits option.splits)


lemma submit_batch_loop_room:
  "m_started m \<Longrightarrow> \<not> m_closed m \<Longrightarrow> \<forall>t \<in> set ts. t_validate t i = None \<Longrightarrow>
    room = chan_cap (m_taskQueue m) - length (chan_buf (m_taskQueue m)) \<Longrightarrow> 0 \<le> n \<Longrightarrow>
    tasksSubmitted (m_stats m) = wrap64 a \<Longrightarrow> tasksInProgress (m_stats m) = wrap32 b \<Longrightarrow>
    \<exists>m'. submit_batch_loop ts n i coin m =
        ((n + int (min room (length ts)), if length ts \<le> room then Some None else None), m') \<and>
      chan_buf (m_taskQueue m') = chan_buf (m_taskQueue m) @ take room ts \<and>
      tasksSubmitted (m_stats m') = wrap64 (a + int (min room (length ts))) \<and>
      tasksInProgress (m_stats m') = wrap32 (b + int (min room (length ts)))"
proof (induction ts arbitrary: m n room a b)
  case (Cons t ts)
  show ?case
  proof (cases "length (chan_buf (m_taskQueue m)) < chan_cap (m_taskQueue m)")
    case False
    with Cons.prems show ?thesis
      by (simp add: Submit_def SubmitWithTimeout_def submit_check_def submit_select_def Let_def)
  next
    case True
    let ?m = "count_submission (enqueue t m)"
    have sub: "Submit t i (coin (nat n)) m = (Some None, ?m)"
      using True Cons.prems by (simp add: Submit_def SubmitWithTimeout_def submit_check_def submit_select_def Let_def)
    have "room \<noteq> 0" using True Cons.prems(4) by simp
    then obtain k where k: "room = Suc k" using not0_implies_Suc by blast
    have fields: "m_started ?m" "\<not> m_closed ?m" "chan_cap (m_taskQueue ?m) = chan_cap (m_taskQueue m)"
      "chan_buf (m_taskQueue ?m) = chan_buf (m_taskQueue m) @ [t]"
      "tasksSubmitted (m_stats ?m) = wrap64 (a + 1)" "tasksInProgress (m_stats ?m) = wrap32 (b + 1)"
      using True Cons.prems(1,2,6,7)
      by (simp_all add: count_submission_def enqueue_def chan_fifo.send_capacity chan_fifo.send_items
          Let_def wrap64_suc wrap32_suc)
    have "k = chan_cap (m_taskQueue ?m) - length (chan_buf (m_taskQueue ?m))"
      using k Cons.prems(4) fields(3,4) by simp
    from Cons.IH [OF fields(1,2) _ this _ fields(5,6), of "n + 1"] Cons.prems(3,5) obtain m' where
      "submit_batch_loop ts (n + 1) i coin ?m =
        ((n + 1 + int (min k (length ts)), if length ts \<le> k then Some None else None), m')"
      "chan_buf (m_taskQueue m') = chan_buf (m_taskQueue ?m) @ take k ts"
      "tasksSubmitted (m_stats m') = wrap64 (a + 1 + int (min k (length ts)))"
      "tasksInProgress (m_stats m') = wrap32 (b + 1 + int (min k (length ts)))"
      by auto
    with sub k fields show ?thesis by (intro exI [of _ m']) (simp add: add.assoc)
  qed
qed simp

text \<open>C23: A batch of valid tasks on a running manager: the tasks that fit into the queue are appended to
  it in order and counted as submitted and in progress, and the call returns when all of them fit and
  otherwise blocks.\<close>

theorem SubmitBatch_correct:
  assumes "m_started m" and "\<not> m_closed m" and "\<forall>t \<in> set ts. t_validate t i = None"
    and "room = chan_cap (m_taskQueue m) - length (chan_buf (m_taskQueue m))"
    and "in64 (tasksSubmitted (m_stats m))" and "in32 (tasksInProgress (m_stats m))"
  shows "\<exists>m'. SubmitBatch ts i coin m =
      ((int (min room (length ts)), if length ts \<le> room then Some None else None), m') \<and>
    chan_buf (m_taskQueue m') = chan_buf (m_taskQueue m) @ take room ts \<and>
    tasksSubmitted (m_stats m') = wrap64 (tasksSubmitted (m_stats m) + int (min room (length ts))) \<and>
    tasksInProgress (m_stats m') = wrap32 (tasksInProgress (m_stats m) + int (min room (length ts)))"
proof -
  have "tasksSubmitted (m_stats m) = wrap64 (tasksSubmitted (m_stats m))"
    "tasksInProgress (m_stats m) = wrap32 (tasksInProgress (m_stats m))"
    using assms(5,6) by (simp_all add: wrap64_in64 wrap32_id in32_def)
  from submit_batch_loop_room [OF assms(1-4) _ this, of 0 coin] assms(1) show ?thesis
    by (simp add: SubmitBatch_def)
qed

text \<open>Handling a result counts it once, as completed or failed by its error, takes one task out of
  progress, and launches the callback of a \<open>SimpleTask\<close>; a callback that was set on a \<open>FunctionTask\<close> or
  on a wrapped task is never launched.\<close>

lemma handleResult_correct:
  "tasksCompleted (m_stats (handleResult r m)) =
     (if r_Err r = None then wrap64 (tasksCompleted (m_stats m) + 1) else tasksCompleted (m_stats m)) \<and>
   tasksFailed (m_stats (handleResult r m)) =
     (if r_Err r = None then tasksFailed (m_stats m) else wrap64 (tasksFailed (m_stats m) + 1)) \<and>
   tasksInProgress (m_stats (handleResult r m)) = wrap32 (tasksInProgress (m_stats m) - 1) \<and>
   m_callbacks (handleResult (r\<lparr>r_Task := Some (simple_iface (WithCallback (Some cb) st))\<rparr>) m) =
     m_callbacks m @ [(cb, r\<lparr>r_Task := Some (simple_iface (WithCallback (Some cb) st))\<rparr>)] \<and>
   m_callbacks (handleResult (r\<lparr>r_Task := Some (ft_iface (ft_WithCallback (Some cb) ft))\<rparr>) m) =
     m_callbacks m"
  by (simp add: handleResult_stats)
    (simp add: handleResult_def result_callback_def simple_iface_def ft_iface_def WithCallback_def Let_def)

theorem SubmitBatch_correct_witness:
  "\<exists>(m :: sample_mgr) m'. SubmitBatch [sample_task, sample_task, sample_task] 0 (\<lambda>_. True) m = ((2, None), m') \<and>
    chan_buf (m_taskQueue m') = [sample_task, sample_task] \<and> tasksSubmitted (m_stats m') = 2"
proof -
  obtain m :: sample_mgr where m: "NewManager (sample_cfg 2) 0 = Inr (Inr m)"
    by (rule sample_manager [of 2]) simp_all
  obtain m1 where "mgr_Start sample_env m = (None, m1)" and m1: "m_started m1" "\<not> m_closed m1"
    "m_processing m1" "m_stats m1 = zero_stats" "m_taskQueue m1 = m_taskQueue m"
    by (rule NewManager_starts [OF m sample_factory])
  from SubmitBatch_correct [OF m1(1,2), of "[sample_task, sample_task, sample_task]" 0 2 "\<lambda>_. True"] m1
    NewManager_parts(5) [OF m]
  show ?thesis by (auto simp: zero_stats_def in64_def in32_def wrap64_id numeral_nat)
qed

theorem WaitForCompletion_correct_witness:
  "\<exists>(m :: sample_mgr). NewManager (sample_cfg 1) 0 = Inr (Inr m) \<and>
    WaitForCompletion background 0 True [m] = Some None \<and>
    WaitForCompletion (cancel_at background 5) 0 True [m] = Some (Some Canceled)"
proof -
  obtain m :: sample_mgr where m: "NewManager (sample_cfg 1) 0 = Inr (Inr m)"
    by (rule sample_manager [of 1]) simp_all
  have "wait_check m"
    using NewManager_parts [OF m] by (simp add: wait_check_def GetTaskQueueLength_def zero_stats_def)
  then have nil: "WaitForCompletion background 0 True [m] = Some None"
    using WaitForCompletion_correct [THEN conjunct1, of background 0 True "[m]"]
    by (simp add: waits_until_def background_def)
  let ?c = "cancel_at background 5"
  have c: "done_at ?c = Some (5, Canceled)" by (simp add: cancel_at_def background_def)
  have "WaitForCompletion ?c 0 True [m] \<noteq> Some None \<and> WaitForCompletion ?c 0 True [m] \<noteq> None"
    using WaitForCompletion_correct [of ?c 0 True "[m]"] c by (simp add: waits_until_def)
  then obtain e where e: "WaitForCompletion ?c 0 True [m] = Some (Some e)" by (metis not_Some_eq)
  then have "e = Canceled" using WaitForCompletion_correct [of ?c 0 True "[m]"] c by simp
  with m nil e show ?thesis by blast
qed

end
