(* ===== verification/Manager_System.thy ===== *)
theory Manager_System
  imports Manager
begin

text \<open>
  The manager as a system of goroutines: a step relation in which submitters, the result processor,
  the resource monitor and the callers of \<open>Start\<close> and \<open>Stop\<close> interleave, each step being one atomic
  action of one goroutine (\<open>Start\<close> and \<open>Stop\<close> themselves are one step each).  Whether workers are wired
  to the manager's queues is a parameter of the relation: in the program they are not, because the
  queues are private to the manager, the pool keeps them without passing them on, and the factory that
  creates the workers exists before they do.  The wired system is the one that the package means to be.
\<close>

section \<open>The system\<close>

text \<open>
  The manager and what is around it: the submissions that passed their checks and wait in their
  \<open>select\<close>, the number of submissions whose task is in the queue but not yet counted, the tasks that
  workers hold, the number of results that a worker dropped because the result queue was full, and a
  panic that ended the process.  Two ghosts record the tasks sent to the queue and those taken from it.
\<close>

record ('o, 'cb, 'w) system =
  y_mgr :: "('o, 'cb, 'w) manager"
  y_pending :: "(('o, 'cb) task \<times> duration) list"
  y_uncounted :: nat
  y_flight :: "('o, 'cb) task list"
  y_lost :: nat
  y_panic :: "panic_val option"
  y_sent :: "('o, 'cb) task list"
  y_taken :: "('o, 'cb) task list"

definition new_system :: "('o, 'cb, 'w) manager \<Rightarrow> ('o, 'cb, 'w) system" where
  "new_system m = \<lparr>y_mgr = m, y_pending = [], y_uncounted = 0, y_flight = [], y_lost = 0,
     y_panic = None, y_sent = [], y_taken = []\<rparr>"

text \<open>The rules \<open>take\<close>, \<open>finish\<close> and \<open>task_panic\<close> are the workers; they only apply when workers hold the
  manager's queues.  A panic of a task on a worker's goroutine, or of a callback on its own, ends the
  process: no rule applies any more.\<close>

inductive sys_step ::
  "bool \<Rightarrow> 'w pool_env \<Rightarrow> ('o, 'cb, 'w) system \<Rightarrow> ('o, 'cb, 'w) system \<Rightarrow> bool"
  for wired :: bool and env :: "'w pool_env" where
  start: "y_panic s = None \<Longrightarrow> mgr_Start env (y_mgr s) = (e, m) \<Longrightarrow>
    sys_step wired env s (s\<lparr>y_mgr := m, y_panic := (if e = None then monitor_ticker m else None)\<rparr>)"
| stop: "y_panic s = None \<Longrightarrow> mgr_Stop env i (y_mgr s) = (p, m) \<Longrightarrow>
    sys_step wired env s (s\<lparr>y_mgr := m, y_panic := p\<rparr>)"
| submit: "y_panic s = None \<Longrightarrow> submit_check t i (y_mgr s) = None \<Longrightarrow>
    sys_step wired env s (s\<lparr>y_pending := y_pending s @ [(t, timeout)]\<rparr>)"
| send: "y_panic s = None \<Longrightarrow> (t, timeout) \<in> set (y_pending s) \<Longrightarrow>
    length (chan_buf (m_taskQueue (y_mgr s))) < chan_cap (m_taskQueue (y_mgr s)) \<Longrightarrow>
    sys_step wired env s
      (s\<lparr>y_mgr := enqueue t (y_mgr s), y_pending := remove1 (t, timeout) (y_pending s),
         y_uncounted := Suc (y_uncounted s), y_sent := y_sent s @ [t]\<rparr>)"
| give_up: "y_panic s = None \<Longrightarrow> (t, timeout) \<in> set (y_pending s) \<Longrightarrow>
    m_closed (y_mgr s) \<or> 0 < timeout \<Longrightarrow>
    sys_step wired env s (s\<lparr>y_pending := remove1 (t, timeout) (y_pending s)\<rparr>)"
| counted: "y_panic s = None \<Longrightarrow> y_uncounted s = Suc n \<Longrightarrow>
    sys_step wired env s (s\<lparr>y_mgr := count_submission (y_mgr s), y_uncounted := n\<rparr>)"
| handle: "y_panic s = None \<Longrightarrow> m_processing (y_mgr s) \<Longrightarrow>
    try_recv (m_resultQueue (y_mgr s)) = Some (r, q) \<Longrightarrow>
    sys_step wired env s (s\<lparr>y_mgr := handleResult r ((y_mgr s)\<lparr>m_resultQueue := q\<rparr>)\<rparr>)"
| processor_exit: "y_panic s = None \<Longrightarrow> m_closed (y_mgr s) \<Longrightarrow>
    sys_step wired env s (s\<lparr>y_mgr := (y_mgr s)\<lparr>m_processing := False\<rparr>\<rparr>)"
| monitor: "y_panic s = None \<Longrightarrow> m_monitoring (y_mgr s) \<Longrightarrow>
    sys_step wired env s (s\<lparr>y_mgr := monitor_tick i (y_mgr s)\<rparr>)"
| monitor_exit: "y_panic s = None \<Longrightarrow> m_closed (y_mgr s) \<Longrightarrow>
    sys_step wired env s (s\<lparr>y_mgr := (y_mgr s)\<lparr>m_monitoring := False\<rparr>\<rparr>)"
| force: "y_panic s = None \<Longrightarrow>
    sys_step wired env s (s\<lparr>y_mgr := ForceScaleWorkers n i (y_mgr s)\<rparr>)"
| enable: "y_panic s = None \<Longrightarrow>
    sys_step wired env s (s\<lparr>y_mgr := EnableDynamicScaling (y_mgr s)\<rparr>)"
| disable: "y_panic s = None \<Longrightarrow>
    sys_step wired env s (s\<lparr>y_mgr := DisableDynamicScaling (y_mgr s)\<rparr>)"
| take: "wired \<Longrightarrow> y_panic s = None \<Longrightarrow> try_recv (m_taskQueue (y_mgr s)) = Some (t, q) \<Longrightarrow>
    sys_step wired env s
      (s\<lparr>y_mgr := (y_mgr s)\<lparr>m_taskQueue := q\<rparr>, y_flight := y_flight s @ [t], y_taken := y_taken s @ [t]\<rparr>)"
| finish: "wired \<Longrightarrow> y_panic s = None \<Longrightarrow> t \<in> set (y_flight s) \<Longrightarrow> r_Task r = Some t \<Longrightarrow>
    try_send (m_resultQueue (y_mgr s)) r = (q, ok) \<Longrightarrow>
    sys_step wired env s
      (s\<lparr>y_mgr := (y_mgr s)\<lparr>m_resultQueue := q\<rparr>, y_flight := remove1 t (y_flight s),
         y_lost := (if ok then y_lost s else Suc (y_lost s))\<rparr>)"
| task_panic: "wired \<Longrightarrow> y_panic s = None \<Longrightarrow> t \<in> set (y_flight s) \<Longrightarrow>
    sys_step wired env s (s\<lparr>y_panic := Some v\<rparr>)"
| callback_panic: "y_panic s = None \<Longrightarrow> m_callbacks (y_mgr s) \<noteq> [] \<Longrightarrow>
    sys_step wired env s (s\<lparr>y_panic := Some v\<rparr>)"

inductive_cases sys_stepE: "sys_step wired env s s'"

text \<open>The loops of the two goroutines that \<open>Start\<close> launches, one round each; rounds of either, in any order,
  are what the manager does on its own.\<close>

inductive processResults :: "('o, 'cb, 'w) manager \<Rightarrow> ('o, 'cb, 'w) manager \<Rightarrow> bool" where
  shutdown: "m_closed m \<Longrightarrow> processResults m (m\<lparr>m_processing := False\<rparr>)"
| result: "m_processing m \<Longrightarrow> try_recv (m_resultQueue m) = Some (r, q) \<Longrightarrow>
    processResults m (handleResult r (m\<lparr>m_resultQueue := q\<rparr>))"

inductive monitorResources :: "('o, 'cb, 'w) manager \<Rightarrow> ('o, 'cb, 'w) manager \<Rightarrow> bool" where
  shutdown: "m_closed m \<Longrightarrow> monitorResources m (m\<lparr>m_monitoring := False\<rparr>)"
| tick: "m_monitoring m \<Longrightarrow> monitorResources m (monitor_tick i m)"

definition own_step :: "('o, 'cb, 'w) manager \<Rightarrow> ('o, 'cb, 'w) manager \<Rightarrow> bool" where
  "own_step m m' \<longleftrightarrow> processResults m m' \<or> monitorResources m m'"

lemma own_step_sys:
  assumes "own_step m m'" "y_mgr s = m" "y_panic s = None"
  shows "sys_step wired env s (s\<lparr>y_mgr := m'\<rparr>)"
proof -
  have "processResults m m' \<Longrightarrow> ?thesis"
    by (erule processResults.cases; hypsubst) (use assms(2,3) in \<open>auto intro: sys_step.handle sys_step.processor_exit\<close>)
  moreover have "monitorResources m m' \<Longrightarrow> ?thesis"
    by (erule monitorResources.cases; hypsubst) (use assms(2,3) in \<open>auto intro: sys_step.monitor sys_step.monitor_exit\<close>)
  ultimately show ?thesis using assms(1) by (auto simp: own_step_def)
qed

lemma own_steps_sys:
  assumes "own_step\<^sup>*\<^sup>* (y_mgr s) m'" "y_panic s = None"
  shows "(sys_step wired env)\<^sup>*\<^sup>* s (s\<lparr>y_mgr := m'\<rparr>)"
  using assms(1)
proof (induction rule: rtranclp_induct)
  case (step m1 m2)
  have "sys_step wired env (s\<lparr>y_mgr := m1\<rparr>) (s\<lparr>y_mgr := m1\<rparr>\<lparr>y_mgr := m2\<rparr>)"
    by (rule own_step_sys [OF step.hyps(2)]) (use assms(2) in simp_all)
  with step.IH show ?case by simp
qed simp

text \<open>A whole submission, as an operation on the manager, is a run of its three steps.\<close>

lemma SubmitWithTimeout_cases:
  assumes "SubmitWithTimeout t timeout i coin m = (r, m')"
  obtains "r = Some None" "submit_check t i m = None" "length (chan_buf (m_taskQueue m)) < chan_cap (m_taskQueue m)"
      "m' = count_submission (enqueue t m)"
    | "r \<noteq> Some None" "m' = m"
proof (cases "submit_check t i m = None \<and> submit_select timeout coin m = Some None")
  case True
  then have "length (chan_buf (m_taskQueue m)) < chan_cap (m_taskQueue m)"
    by (auto simp: submit_select_def Let_def split: if_splits)
  with True assms show thesis by (intro that(1)) (simp_all add: SubmitWithTimeout_def)
next
  case False
  with assms show thesis by (intro that(2)) (auto simp: SubmitWithTimeout_def split: option.splits)
qed

lemma sys_run_then:
  "(sys_step wired env)\<^sup>*\<^sup>* s s1 \<Longrightarrow> \<exists>s'. (sys_step wired env)\<^sup>*\<^sup>* s1 s' \<and> P s' \<Longrightarrow>
    \<exists>s'. (sys_step wired env)\<^sup>*\<^sup>* s s' \<and> P s'"
  by (blast intro: rtranclp_trans)

lemma SubmitWithTimeout_sys:
  assumes "SubmitWithTimeout t timeout i coin (y_mgr s) = (r, m')" "y_panic s = None"
  shows "\<exists>s'. (sys_step wired env)\<^sup>*\<^sup>* s s' \<and> y_mgr s' = m' \<and> y_panic s' = None"
  using assms(1)
proof (cases rule: SubmitWithTimeout_cases)
  case 1
  let ?s1 = "s\<lparr>y_pending := y_pending s @ [(t, timeout)]\<rparr>"
  let ?s2 = "?s1\<lparr>y_mgr := enqueue t (y_mgr ?s1), y_pending := remove1 (t, timeout) (y_pending ?s1),
    y_uncounted := Suc (y_uncounted ?s1), y_sent := y_sent ?s1 @ [t]\<rparr>"
  let ?s3 = "?s2\<lparr>y_mgr := count_submission (y_mgr ?s2), y_uncounted := y_uncounted s\<rparr>"
  have "sys_step wired env s ?s1" by (rule sys_step.submit) (use 1 assms(2) in simp_all)
  moreover have "sys_step wired env ?s1 ?s2" by (rule sys_step.send) (use 1 assms(2) in simp_all)
  moreover have "sys_step wired env ?s2 ?s3" by (rule sys_step.counted) (use assms(2) in simp_all)
  ultimately have "(sys_step wired env)\<^sup>*\<^sup>* s ?s3" by (meson converse_rtranclp_into_rtranclp rtranclp.rtrancl_refl)
  then show ?thesis using 1 assms(2) by (intro exI [of _ ?s3]) simp
qed (use assms(2) in blast)

section \<open>Invariant\<close>

text \<open>
  Every task sent to the queue is in exactly one place; the counters are the wrapped counts of the
  tasks that were counted, completed and failed.
\<close>

definition accounted :: "nat \<Rightarrow> nat \<Rightarrow> nat \<Rightarrow> ('o, 'cb, 'w) system \<Rightarrow> bool" where
  "accounted n c f s \<longleftrightarrow>
     (let m = y_mgr s; st = m_stats m
      in tasksSubmitted st = wrap64 (int n) \<and> tasksCompleted st = wrap64 (int c) \<and>
         tasksFailed st = wrap64 (int f) \<and> tasksInProgress st = wrap32 (int n - int (c + f)) \<and>
         n + y_uncounted s = length (chan_buf (m_taskQueue m)) + length (y_taken s) \<and>
         length (y_taken s) = length (y_flight s) + length (chan_buf (m_resultQueue m)) + y_lost s + c + f \<and>
         y_sent s = y_taken s @ chan_buf (m_taskQueue m))"

lemma accounted_frame:
  assumes "accounted n c f s"
    and "m_stats (y_mgr s') = m_stats (y_mgr s)" "m_taskQueue (y_mgr s') = m_taskQueue (y_mgr s)"
      "m_resultQueue (y_mgr s') = m_resultQueue (y_mgr s)" "y_uncounted s' = y_uncounted s"
      "y_flight s' = y_flight s" "y_lost s' = y_lost s" "y_sent s' = y_sent s" "y_taken s' = y_taken s"
  shows "\<exists>n c f. accounted n c f s'"
proof -
  have "accounted n c f s'" using assms by (simp add: accounted_def Let_def)
  then show ?thesis by blast
qed

lemma sys_step_accounted:
  assumes "sys_step wired env s s'" and "accounted n c f s"
  shows "\<exists>n c f. accounted n c f s'"
  using assms(1)
proof cases
  case (start e m)
  with assms(2) mgr_Start_frame [OF start(3)] have "accounted n c f s'" by (simp add: accounted_def Let_def)
  then show ?thesis by blast
next
  case (stop i p m)
  with assms(2) mgr_Stop_frame [OF stop(3)] have "accounted n c f s'" by (simp add: accounted_def Let_def)
  then show ?thesis by blast
next
  case (send t timeout)
  with assms(2) have "accounted n c f s'" by (simp add: accounted_def Let_def)
  then show ?thesis by blast
next
  case (counted k)
  with assms(2) have "accounted (Suc n) c f s'"
    by (simp add: accounted_def Let_def count_submission_def counter_steps del: of_nat_Suc of_nat_add)
  then show ?thesis by blast
next
  case (handle r q)
  note recv = try_recv_Some [OF handle(4)]
  have "accounted n (if r_Err r = None then Suc c else c) (if r_Err r = None then f else Suc f) s'"
    using assms(2) handle(1) recv
    by (cases "r_Err r")
      (simp_all add: accounted_def Let_def handleResult_stats counter_steps del: of_nat_Suc of_nat_add)
  then show ?thesis by blast
next
  case (take t q)
  with assms(2) try_recv_Some [OF take(4)] have "accounted n c f s'" by (simp add: accounted_def Let_def)
  then show ?thesis by blast
next
  case (finish t r q ok)
  have "chan_buf q = chan_buf (m_resultQueue (y_mgr s)) @ (if ok then [r] else [])"
    using finish(6) by (auto simp: try_send_def split: if_splits)
  moreover have "Suc (length (remove1 t (y_flight s))) = length (y_flight s)"
    using finish(4) length_pos_if_in_set [of t "y_flight s"] by (simp add: length_remove1)
  ultimately have "accounted n c f s'" using assms(2) finish(1) by (simp add: accounted_def Let_def)
  then show ?thesis by blast
qed (rule accounted_frame [OF assms(2)]; simp)+

lemma reachable_accounted:
  assumes "(sys_step wired env)\<^sup>*\<^sup>* (new_system m) s"
    and "m_stats m = zero_stats" "chan_buf (m_taskQueue m) = []" "chan_buf (m_resultQueue m) = []"
  shows "\<exists>n c f. accounted n c f s"
  using assms(1)
proof (induction rule: rtranclp_induct)
  case base
  have "accounted 0 0 0 (new_system m)"
    using assms(2-4) by (simp add: accounted_def new_system_def zero_stats_def wrap64_id wrap32_id)
  then show ?case by blast
next
  case (step s1 s2)
  then show ?case using sys_step_accounted by blast
qed

lemma manager_accounted:
  assumes "NewManager cfg i = Inr (Inr m)" and "(sys_step wired env)\<^sup>*\<^sup>* (new_system m) s"
  shows "\<exists>n c f. accounted n c f s"
  using reachable_accounted [OF assms(2)] NewManager_parts [OF assms(1)] by simp

lemma wait_check_counts:
  assumes "accounted n c f s" "y_uncounted s = 0" "wait_check (y_mgr s)" "length (y_sent s) < 2 ^ 31"
  shows "n = c + f" and "y_flight s = []" and "chan_buf (m_resultQueue (y_mgr s)) = []" and "y_lost s = 0"
    and "length (y_sent s) = n"
proof -
  have q: "chan_buf (m_taskQueue (y_mgr s)) = []" and z: "wrap32 (int n - int (c + f)) = 0"
    using assms(1,3) by (auto simp: wait_check_def GetTaskQueueLength_def accounted_def Let_def)
  have n: "n = length (y_taken s)" "length (y_sent s) = n" "c + f \<le> n"
    "length (y_taken s) = length (y_flight s) + length (chan_buf (m_resultQueue (y_mgr s))) + y_lost s + c + f"
    using assms(1,2) q by (auto simp: accounted_def Let_def)
  have "wrap32 (int n - int (c + f)) = int n - int (c + f)"
    using n(2,3) assms(4) by (intro wrap32_id) simp_all
  with z n(3) show eq: "n = c + f" by simp
  show "y_flight s = []" "chan_buf (m_resultQueue (y_mgr s)) = []" "y_lost s = 0" "length (y_sent s) = n"
    using n eq by simp_all
qed

lemma lost_monotone: "sys_step wired env s s' \<Longrightarrow> y_lost s \<le> y_lost s'"
  by (erule sys_stepE) auto

lemma lost_monotone_run: "(sys_step wired env)\<^sup>*\<^sup>* s s' \<Longrightarrow> y_lost s \<le> y_lost s'"
  by (induction rule: rtranclp_induct) (auto dest: lost_monotone)

text \<open>Without workers on the queues, nothing leaves the task queue and nothing enters the other.\<close>

definition stuck :: "('o, 'cb, 'w) system \<Rightarrow> bool" where
  "stuck s \<longleftrightarrow> y_flight s = [] \<and> y_taken s = [] \<and> y_lost s = 0 \<and>
     chan_buf (m_resultQueue (y_mgr s)) = [] \<and>
     length (chan_buf (m_taskQueue (y_mgr s))) \<le> chan_cap (m_taskQueue (y_mgr s))"

lemma stuck_step: "sys_step False env s s' \<Longrightarrow> stuck s \<Longrightarrow> stuck s' \<and>
    chan_cap (m_taskQueue (y_mgr s')) = chan_cap (m_taskQueue (y_mgr s))"
proof (erule sys_stepE, goal_cases)
  case (1 e m)
  then show ?case using mgr_Start_frame by (fastforce simp: stuck_def)
next
  case (2 i p m)
  then show ?case using mgr_Stop_frame by (fastforce simp: stuck_def)
next
  case (4 t timeout)
  then show ?case by (simp add: stuck_def) (simp add: enqueue_def chan_fifo.send_capacity)
next
  case (7 r q)
  then show ?case using try_recv_Some [of "m_resultQueue (y_mgr s)" r q] by (simp add: stuck_def)
qed (simp_all add: stuck_def)

lemma stuck_run: "(sys_step False env)\<^sup>*\<^sup>* s s' \<Longrightarrow> stuck s \<Longrightarrow> stuck s' \<and>
    chan_cap (m_taskQueue (y_mgr s')) = chan_cap (m_taskQueue (y_mgr s))"
proof (induction rule: rtranclp_induct)
  case (step s1 s2)
  then show ?case using stuck_step by fastforce
qed simp

text \<open>The pool's context was done when the manager was made, and stays so.\<close>

definition dead_ctx :: "instant \<Rightarrow> ctx \<Rightarrow> bool" where
  "dead_ctx i c \<longleftrightarrow> (\<exists>d e. done_at c = Some (d, e) \<and> d \<le> i)"

lemma dead_ctx_err: "dead_ctx i c \<Longrightarrow> i \<le> j \<Longrightarrow> ctx_err c j \<noteq> None"
  by (auto simp: dead_ctx_def ctx_err_def)

lemma dead_ctx_cancel [simp]: "dead_ctx i (cancel_at c i)" "dead_ctx i c \<Longrightarrow> dead_ctx i (cancel_at c j)"
  by (auto simp: dead_ctx_def cancel_at_def split: option.splits)

lemma pool_Start_ctx: "p_ctx (snd (pool_Start env p)) = p_ctx p"
proof -
  obtain e1 p1 where add: "add_workers env (nat (p_size p)) p = (e1, p1)" by (metis surj_pair)
  from add_workers_same [OF add] add show ?thesis
    by (cases e1) (auto simp: pool_Start_def same_pool_def stopAllWorkers_def)
qed

lemma dead_ctx_step:
  "sys_step wired env s s' \<Longrightarrow> dead_ctx i (p_ctx (m_pool (y_mgr s))) \<Longrightarrow>
    dead_ctx i (p_ctx (m_pool (y_mgr s')))"
proof (erule sys_stepE, goal_cases)
  case (1 e m)
  then show ?case using pool_Start_ctx [of env "m_pool (y_mgr s)"]
    by (auto simp: mgr_Start_def split: if_splits prod.splits option.splits)
next
  case (2 j p m)
  then show ?case by (auto simp: mgr_Stop_def pool_Stop_def stopAllWorkers_def split: if_splits)
qed simp_all

lemma dead_ctx_run:
  "(sys_step wired env)\<^sup>*\<^sup>* s s' \<Longrightarrow> dead_ctx i (p_ctx (m_pool (y_mgr s))) \<Longrightarrow>
    dead_ctx i (p_ctx (m_pool (y_mgr s')))"
  by (induction rule: rtranclp_induct) (auto intro: dead_ctx_step)

section \<open>Runs that exist\<close>

text \<open>A running system with idle queues, in which nothing is pending; \<open>k\<close> is the capacity of its queues.\<close>

definition idle :: "nat \<Rightarrow> ('o, 'cb, 'w) system \<Rightarrow> bool" where
  "idle k s \<longleftrightarrow> y_panic s = None \<and> m_started (y_mgr s) \<and> m_processing (y_mgr s) \<and> y_pending s = [] \<and>
     m_taskQueue (y_mgr s) = \<lparr>chan_buf = [], chan_cap = k\<rparr> \<and> chan_cap (m_resultQueue (y_mgr s)) = k"

lemma new_system_starts:
  assumes "NewManager cfg i = Inr (Inr m)" "factory_total env" "0 < MonitorInterval cfg"
  obtains s where "(sys_step wired env)\<^sup>*\<^sup>* (new_system m) s" "idle (nat (MaxTasksInQueue cfg)) s"
    "y_uncounted s = 0" "y_flight s = []" "y_lost s = 0" "y_sent s = []" "m_stats (y_mgr s) = zero_stats"
    "chan_buf (m_resultQueue (y_mgr s)) = []"
proof -
  note parts = NewManager_parts [OF assms(1)]
  obtain m' where m': "mgr_Start env m = (None, m')" "m_started m'" "\<not> m_closed m'" "m_processing m'"
    "m_stats m' = zero_stats" "m_taskQueue m' = m_taskQueue m" "m_resultQueue m' = m_resultQueue m"
    "m_config m' = cfg" by (rule NewManager_starts [OF assms(1,2)])
  let ?s = "(new_system m)\<lparr>y_mgr := m'\<rparr>"
  have "sys_step wired env (new_system m)
      ((new_system m)\<lparr>y_mgr := m', y_panic := (if None = (None :: go_error option) then monitor_ticker m' else None)\<rparr>)"
    using m'(1) by (intro sys_step.start) (simp_all add: new_system_def)
  then have "sys_step wired env (new_system m) ?s"
    using assms(3) m'(8) by (simp add: monitor_ticker_def new_system_def)
  then have "(sys_step wired env)\<^sup>*\<^sup>* (new_system m) ?s" by simp
  then show thesis by (rule that) (simp_all add: idle_def new_system_def m' parts)
qed

text \<open>One task can be sent, and taken by a worker, before the submission is counted.\<close>

lemma idle_send:
  assumes "idle k s" "0 < k" "t_validate t i = None"
  obtains s' where "(sys_step wired env)\<^sup>*\<^sup>* s s'" "y_uncounted s' = Suc (y_uncounted s)"
    "y_flight s' = y_flight s" "y_sent s' = y_sent s @ [t]" "y_lost s' = y_lost s" "y_panic s' = None"
    "m_taskQueue (y_mgr s') = \<lparr>chan_buf = [t], chan_cap = k\<rparr>" "m_stats (y_mgr s') = m_stats (y_mgr s)"
    "m_resultQueue (y_mgr s') = m_resultQueue (y_mgr s)" "m_started (y_mgr s')" "m_processing (y_mgr s')"
    "y_pending s' = []"
proof -
  let ?s1 = "s\<lparr>y_pending := y_pending s @ [(t, 0)]\<rparr>"
  let ?s2 = "?s1\<lparr>y_mgr := enqueue t (y_mgr ?s1), y_pending := remove1 (t, 0) (y_pending ?s1),
    y_uncounted := Suc (y_uncounted ?s1), y_sent := y_sent ?s1 @ [t]\<rparr>"
  have "sys_step wired env s ?s1"
    by (rule sys_step.submit) (use assms in \<open>simp_all add: idle_def submit_check_def\<close>)
  moreover have "sys_step wired env ?s1 ?s2"
    by (rule sys_step.send) (use assms in \<open>simp_all add: idle_def\<close>)
  ultimately have "(sys_step wired env)\<^sup>*\<^sup>* s ?s2" by (meson converse_rtranclp_into_rtranclp r_into_rtranclp)
  then show thesis
    by (rule that) (use assms in \<open>simp_all add: idle_def enqueue_def try_send_def\<close>)
qed

lemma idle_send_take:
  assumes "idle k s" "0 < k" "t_validate t i = None"
  obtains s' where "(sys_step True env)\<^sup>*\<^sup>* s s'" "idle k s'" "y_uncounted s' = Suc (y_uncounted s)"
    "y_flight s' = y_flight s @ [t]" "y_sent s' = y_sent s @ [t]" "y_lost s' = y_lost s"
    "m_stats (y_mgr s') = m_stats (y_mgr s)" "m_resultQueue (y_mgr s') = m_resultQueue (y_mgr s)"
proof -
  obtain s1 where s1: "(sys_step True env)\<^sup>*\<^sup>* s s1" "y_uncounted s1 = Suc (y_uncounted s)"
    "y_flight s1 = y_flight s" "y_sent s1 = y_sent s @ [t]" "y_lost s1 = y_lost s" "y_panic s1 = None"
    "m_taskQueue (y_mgr s1) = \<lparr>chan_buf = [t], chan_cap = k\<rparr>" "m_stats (y_mgr s1) = m_stats (y_mgr s)"
    "m_resultQueue (y_mgr s1) = m_resultQueue (y_mgr s)" "m_started (y_mgr s1)" "m_processing (y_mgr s1)"
    "y_pending s1 = []" by (rule idle_send [OF assms])
  let ?s2 = "s1\<lparr>y_mgr := (y_mgr s1)\<lparr>m_taskQueue := \<lparr>chan_buf = [], chan_cap = k\<rparr>\<rparr>,
    y_flight := y_flight s1 @ [t], y_taken := y_taken s1 @ [t]\<rparr>"
  have "sys_step True env s1 ?s2"
    by (rule sys_step.take) (use s1 in \<open>simp_all add: try_recv_def\<close>)
  with s1(1) have "(sys_step True env)\<^sup>*\<^sup>* s ?s2" by simp
  then show thesis by (rule that) (use s1 assms(1) in \<open>simp_all add: idle_def\<close>)
qed

text \<open>Counting the outstanding submissions.\<close>

lemma count_all:
  assumes "y_panic s = None"
  shows "\<exists>s'. (sys_step wired env)\<^sup>*\<^sup>* s s' \<and> y_uncounted s' = 0 \<and> y_flight s' = y_flight s \<and>
    y_sent s' = y_sent s \<and> y_lost s' = y_lost s \<and> y_panic s' = None \<and>
    m_taskQueue (y_mgr s') = m_taskQueue (y_mgr s) \<and> m_resultQueue (y_mgr s') = m_resultQueue (y_mgr s) \<and>
    m_processing (y_mgr s') = m_processing (y_mgr s)"
  using assms
proof (induction "y_uncounted s" arbitrary: s)
  case (Suc n)
  let ?s1 = "s\<lparr>y_mgr := count_submission (y_mgr s), y_uncounted := n\<rparr>"
  have step: "sys_step wired env s ?s1" by (rule sys_step.counted) (use Suc in simp_all)
  have "m_processing (count_submission (y_mgr s)) = m_processing (y_mgr s)"
    by (simp add: count_submission_def Let_def)
  with Suc.hyps(1) [of ?s1] Suc.prems obtain s' where "(sys_step wired env)\<^sup>*\<^sup>* ?s1 s'"
    "y_uncounted s' = 0 \<and> y_flight s' = y_flight s \<and> y_sent s' = y_sent s \<and> y_lost s' = y_lost s \<and>
     y_panic s' = None \<and> m_taskQueue (y_mgr s') = m_taskQueue (y_mgr s) \<and>
     m_resultQueue (y_mgr s') = m_resultQueue (y_mgr s) \<and> m_processing (y_mgr s') = m_processing (y_mgr s)"
    by auto
  with step show ?case by (meson converse_rtranclp_into_rtranclp)
qed (intro exI, auto)

section \<open>Draining\<close>

text \<open>While the result processor runs, a wired system always has a step that brings its tasks nearer to
  their end and drops nothing; \<open>load\<close> weighs a task by how far it has got.\<close>

definition load :: "('o, 'cb, 'w) system \<Rightarrow> nat" where
  "load s = 3 * length (chan_buf (m_taskQueue (y_mgr s))) + 2 * length (y_flight s) +
     length (chan_buf (m_resultQueue (y_mgr s)))"

definition plain_result :: "('o, 'cb) task \<Rightarrow> ('o, 'cb) result" where
  "plain_result t = \<lparr>r_TaskID = t_id t, r_Output = None, r_Err = None, r_Duration = 0, r_Worker = 0,
     r_Attempt = 1, r_Task = Some t\<rparr>"

definition draining :: "('o, 'cb, 'w) system \<Rightarrow> ('o, 'cb, 'w) system \<Rightarrow> bool" where
  "draining s s' \<longleftrightarrow> y_panic s' = None \<and> m_processing (y_mgr s') \<and> y_sent s' = y_sent s \<and>
     y_lost s' = y_lost s \<and> y_uncounted s' = y_uncounted s \<and>
     chan_cap (m_resultQueue (y_mgr s')) = chan_cap (m_resultQueue (y_mgr s))"

lemma draining_trans: "draining s s' \<Longrightarrow> draining s' s'' \<Longrightarrow> draining s s''"
  by (simp add: draining_def)

lemma handle_step:
  assumes "draining s s" "chan_buf (m_resultQueue (y_mgr s)) = r # rs"
  obtains s' where "sys_step wired env s s'" "draining s s'" "load s' < load s" "y_flight s' = y_flight s"
    "chan_buf (m_taskQueue (y_mgr s')) = chan_buf (m_taskQueue (y_mgr s))"
proof -
  let ?q = "(m_resultQueue (y_mgr s))\<lparr>chan_buf := rs\<rparr>"
  let ?s = "s\<lparr>y_mgr := handleResult r ((y_mgr s)\<lparr>m_resultQueue := ?q\<rparr>)\<rparr>"
  have "sys_step wired env s ?s"
    by (rule sys_step.handle) (use assms in \<open>simp_all add: draining_def try_recv_def\<close>)
  moreover have "m_processing (handleResult r m) = m_processing m" for m :: "('a, 'b, 'c) manager"
    by (simp add: handleResult_def Let_def)
  ultimately show thesis using assms by (intro that [of ?s]) (simp_all add: draining_def load_def)
qed

lemma load_step:
  assumes "draining s s" "0 < chan_cap (m_resultQueue (y_mgr s))" "0 < load s"
  shows "\<exists>s'. sys_step True env s s' \<and> draining s s' \<and> load s' < load s"
proof (cases "chan_buf (m_resultQueue (y_mgr s))")
  case (Cons r rs)
  from handle_step [OF assms(1) this] show ?thesis by blast
next
  case results: Nil
  show ?thesis
  proof (cases "y_flight s")
    case (Cons t ts)
    let ?q = "(m_resultQueue (y_mgr s))\<lparr>chan_buf := [plain_result t]\<rparr>"
    let ?s = "s\<lparr>y_mgr := (y_mgr s)\<lparr>m_resultQueue := ?q\<rparr>, y_flight := remove1 t (y_flight s),
      y_lost := (if True then y_lost s else Suc (y_lost s))\<rparr>"
    have "sys_step True env s ?s"
      by (rule sys_step.finish [where r = "plain_result t"])
        (use assms(1,2) Cons results in \<open>simp_all add: draining_def try_send_def plain_result_def\<close>)
    then show ?thesis
      using assms(1) Cons results by (intro exI [of _ ?s]) (simp add: draining_def load_def)
  next
    case Nil
    with results assms(3) obtain t ts where q: "chan_buf (m_taskQueue (y_mgr s)) = t # ts"
      by (cases "chan_buf (m_taskQueue (y_mgr s))") (auto simp: load_def)
    let ?q = "(m_taskQueue (y_mgr s))\<lparr>chan_buf := ts\<rparr>"
    let ?s = "s\<lparr>y_mgr := (y_mgr s)\<lparr>m_taskQueue := ?q\<rparr>, y_flight := y_flight s @ [t], y_taken := y_taken s @ [t]\<rparr>"
    have "sys_step True env s ?s"
      by (rule sys_step.take) (use assms(1) q in \<open>simp_all add: draining_def try_recv_def\<close>)
    then show ?thesis
      using assms(1) Nil q results by (intro exI [of _ ?s]) (simp add: draining_def load_def)
  qed
qed

lemma drain:
  assumes "draining s s" "0 < chan_cap (m_resultQueue (y_mgr s))"
  shows "\<exists>s'. (sys_step True env)\<^sup>*\<^sup>* s s' \<and> draining s s' \<and> load s' = 0"
  using assms
proof (induction "load s" arbitrary: s rule: less_induct)
  case less
  show ?case
  proof (cases "load s = 0")
    case True
    then show ?thesis using less.prems by blast
  next
    case False
    then obtain s1 where s1: "sys_step True env s s1" "draining s s1" "load s1 < load s"
      using load_step [OF less.prems] by blast
    then have "draining s1 s1" "0 < chan_cap (m_resultQueue (y_mgr s1))"
      using less.prems(2) by (simp_all add: draining_def)
    from less.hyps [OF s1(3) this] obtain s' where "(sys_step True env)\<^sup>*\<^sup>* s1 s'" "draining s1 s'" "load s' = 0"
      by blast
    with s1(1) draining_trans [OF s1(2)] show ?thesis by (meson converse_rtranclp_into_rtranclp)
  qed
qed

lemma caps_step:
  "sys_step wired env s s' \<Longrightarrow> chan_cap (m_resultQueue (y_mgr s')) = chan_cap (m_resultQueue (y_mgr s)) \<and>
    chan_cap (m_taskQueue (y_mgr s')) = chan_cap (m_taskQueue (y_mgr s))"
proof (erule sys_stepE, goal_cases)
  case (1 e m)
  then show ?case using mgr_Start_frame by fastforce
next
  case (2 i p m)
  then show ?case using mgr_Stop_frame by fastforce
qed (auto simp: enqueue_def chan_fifo.send_capacity try_recv_def try_send_def split: if_splits)

lemma caps_run:
  "(sys_step wired env)\<^sup>*\<^sup>* s s' \<Longrightarrow> chan_cap (m_resultQueue (y_mgr s')) = chan_cap (m_resultQueue (y_mgr s)) \<and>
    chan_cap (m_taskQueue (y_mgr s')) = chan_cap (m_taskQueue (y_mgr s))"
  by (induction rule: rtranclp_induct) (auto dest: caps_step)

section \<open>An abstract ledger\<close>

text \<open>
  What the system is for, without its goroutines: tasks are accepted while there is room, begun,
  reported (or dropped when there is no room for their report), and settled.
\<close>

record ledger =
  l_queued :: nat
  l_running :: nat
  l_reported :: nat
  l_settled :: nat
  l_dropped :: nat

definition empty_ledger :: ledger where
  "empty_ledger = \<lparr>l_queued = 0, l_running = 0, l_reported = 0, l_settled = 0, l_dropped = 0\<rparr>"

inductive ledger_step :: "nat \<Rightarrow> ledger \<Rightarrow> ledger \<Rightarrow> bool" for cap :: nat where
  accept: "l_queued l < cap \<Longrightarrow> ledger_step cap l (l\<lparr>l_queued := Suc (l_queued l)\<rparr>)"
| begin_task: "l_queued l = Suc n \<Longrightarrow>
    ledger_step cap l (l\<lparr>l_queued := n, l_running := Suc (l_running l)\<rparr>)"
| report: "l_running l = Suc n \<Longrightarrow> l_reported l < cap \<Longrightarrow>
    ledger_step cap l (l\<lparr>l_running := n, l_reported := Suc (l_reported l)\<rparr>)"
| drop_report: "l_running l = Suc n \<Longrightarrow> \<not> l_reported l < cap \<Longrightarrow>
    ledger_step cap l (l\<lparr>l_running := n, l_dropped := Suc (l_dropped l)\<rparr>)"
| settle: "l_reported l = Suc n \<Longrightarrow>
    ledger_step cap l (l\<lparr>l_reported := n, l_settled := Suc (l_settled l)\<rparr>)"

definition ledger_of :: "('o, 'cb, 'w) system \<Rightarrow> ledger" where
  "ledger_of s =
     \<lparr>l_queued = length (chan_buf (m_taskQueue (y_mgr s))), l_running = length (y_flight s),
      l_reported = length (chan_buf (m_resultQueue (y_mgr s))),
      l_settled = length (y_taken s) - length (y_flight s) -
        length (chan_buf (m_resultQueue (y_mgr s))) - y_lost s,
      l_dropped = y_lost s\<rparr>"

lemma step_refines:
  assumes "sys_step wired env s s'" "accounted n c f s"
    and cap: "chan_cap (m_taskQueue (y_mgr s)) = k" "chan_cap (m_resultQueue (y_mgr s)) = k"
  shows "ledger_of s' = ledger_of s \<or> ledger_step k (ledger_of s) (ledger_of s')"
  using assms(1)
proof cases
  case (start e m)
  with mgr_Start_frame [OF start(3)] show ?thesis by (simp add: ledger_of_def)
next
  case (stop i p m)
  with mgr_Stop_frame [OF stop(3)] show ?thesis by (simp add: ledger_of_def)
next
  case (send t timeout)
  then have eq: "ledger_of s' = (ledger_of s)\<lparr>l_queued := Suc (l_queued (ledger_of s))\<rparr>"
    by (simp add: ledger_of_def)
  have "l_queued (ledger_of s) < k" using send(4) cap by (simp add: ledger_of_def)
  then show ?thesis unfolding eq by (intro disjI2 ledger_step.accept)
next
  case (handle r q)
  note recv = try_recv_Some [OF handle(4)]
  have eq: "ledger_of s' = (ledger_of s)\<lparr>l_reported := length (chan_buf q), l_settled := Suc (l_settled (ledger_of s))\<rparr>"
    using handle(1) recv assms(2) by (simp add: ledger_of_def accounted_def Let_def)
  have "l_reported (ledger_of s) = Suc (length (chan_buf q))" using recv by (simp add: ledger_of_def)
  then show ?thesis unfolding eq by (intro disjI2 ledger_step.settle)
next
  case (take t q)
  note recv = try_recv_Some [OF take(4)]
  have eq: "ledger_of s' = (ledger_of s)\<lparr>l_queued := length (chan_buf q), l_running := Suc (l_running (ledger_of s))\<rparr>"
    using take recv assms(2) by (simp add: ledger_of_def accounted_def Let_def)
  have "l_queued (ledger_of s) = Suc (length (chan_buf q))" using recv by (simp add: ledger_of_def)
  then show ?thesis unfolding eq by (intro disjI2 ledger_step.begin_task)
next
  case (finish t r q ok)
  have run: "l_running (ledger_of s) = Suc (length (remove1 t (y_flight s)))"
    using finish(4) length_pos_if_in_set [of t "y_flight s"] by (simp add: ledger_of_def length_remove1)
  show ?thesis
  proof (cases "length (chan_buf (m_resultQueue (y_mgr s))) < k")
    case True
    then have "ok" "chan_buf q = chan_buf (m_resultQueue (y_mgr s)) @ [r]"
      using finish(6) cap(2) by (auto simp: try_send_def split: if_splits)
    then have eq: "ledger_of s' = (ledger_of s)\<lparr>l_running := length (remove1 t (y_flight s)),
        l_reported := Suc (l_reported (ledger_of s))\<rparr>"
      using finish(1,4) run assms(2) by (simp add: ledger_of_def accounted_def Let_def)
    have "l_reported (ledger_of s) < k" using True by (simp add: ledger_of_def)
    with run show ?thesis unfolding eq by (intro disjI2 ledger_step.report)
  next
    case False
    then have "\<not> ok" "q = m_resultQueue (y_mgr s)"
      using finish(6) cap(2) by (auto simp: try_send_def split: if_splits)
    then have eq: "ledger_of s' = (ledger_of s)\<lparr>l_running := length (remove1 t (y_flight s)),
        l_dropped := Suc (l_dropped (ledger_of s))\<rparr>"
      using finish(1,4) run assms(2) by (simp add: ledger_of_def accounted_def Let_def)
    have "\<not> l_reported (ledger_of s) < k" using False by (simp add: ledger_of_def)
    with run show ?thesis unfolding eq by (intro disjI2 ledger_step.drop_report)
  qed
qed (simp_all add: ledger_of_def)

text \<open>A step either leaves the ledger as it is or, unless it accepts a task, brings the work nearer to
  its end.\<close>

definition work_step :: "bool \<Rightarrow> 'w pool_env \<Rightarrow> ('o, 'cb, 'w) system \<Rightarrow> ('o, 'cb, 'w) system \<Rightarrow> bool" where
  "work_step wired env s s' \<longleftrightarrow>
     sys_step wired env s s' \<and> y_sent s' = y_sent s \<and> ledger_of s' \<noteq> ledger_of s"

definition quiet_step :: "bool \<Rightarrow> 'w pool_env \<Rightarrow> ('o, 'cb, 'w) system \<Rightarrow> ('o, 'cb, 'w) system \<Rightarrow> bool" where
  "quiet_step wired env s s' \<longleftrightarrow> sys_step wired env s s' \<and> ledger_of s' = ledger_of s"

lemma load_ledger:
  "load s = 3 * l_queued (ledger_of s) + 2 * l_running (ledger_of s) + l_reported (ledger_of s)"
  by (simp add: load_def ledger_of_def)

lemma quiet_steps_load: "(quiet_step wired env)\<^sup>*\<^sup>* s s' \<Longrightarrow> load s' = load s"
  by (induction rule: rtranclp_induct) (simp_all add: quiet_step_def load_ledger)

lemma work_step_load:
  assumes "work_step wired env s s'"
  shows "load s' < load s"
proof -
  from assms have step: "sys_step wired env s s'" and sent: "y_sent s' = y_sent s"
    and changed: "ledger_of s' \<noteq> ledger_of s" by (simp_all add: work_step_def)
  from step show ?thesis
  proof cases
    case (start e m)
    with mgr_Start_frame [OF start(3)] changed show ?thesis by (simp add: ledger_of_def)
  next
    case (stop i p m)
    with mgr_Stop_frame [OF stop(3)] changed show ?thesis by (simp add: ledger_of_def)
  next
    case (handle r q)
    with try_recv_Some [OF handle(4)] show ?thesis by (simp add: load_def)
  next
    case (take t q)
    with try_recv_Some [OF take(4)] show ?thesis by (simp add: load_def)
  next
    case (finish t r q ok)
    have "Suc (length (remove1 t (y_flight s))) = length (y_flight s)"
      using finish(4) length_pos_if_in_set [of t "y_flight s"] by (simp add: length_remove1)
    moreover have "length (chan_buf q) \<le> Suc (length (chan_buf (m_resultQueue (y_mgr s))))"
      using finish(6) by (auto simp: try_send_def split: if_splits)
    ultimately show ?thesis using finish(1) by (simp add: load_def)
  qed (use sent changed in \<open>simp_all add: ledger_of_def\<close>)
qed

text \<open>The manager drives its pool through \<open>Start\<close> and \<open>Stop\<close> only.\<close>

lemma sys_step_pool:
  assumes "sys_step wired env s s'"
  shows "\<exists>ops. m_pool (y_mgr s') = pool_run env ops (m_pool (y_mgr s))"
proof -
  have frame: "m_pool (y_mgr s') = m_pool (y_mgr s) \<Longrightarrow> ?thesis"
    by (rule exI [of _ "[]"]) (simp add: pool_run_def)
  from assms show ?thesis
  proof cases
    case (start e m)
    have "m_pool m = m_pool (y_mgr s) \<or> m_pool m = snd (pool_Start env (m_pool (y_mgr s)))"
      using start(3) by (auto simp: mgr_Start_def split: if_splits prod.splits option.splits)
    then show ?thesis
    proof
      assume "m_pool m = m_pool (y_mgr s)"
      with start(1) show ?thesis by (intro frame) simp
    qed (use start(1) in \<open>intro exI [of _ "[OpStart]"], simp add: pool_run_def\<close>)
  next
    case (stop i p m)
    have "m_pool m = m_pool (y_mgr s) \<or> m_pool m = pool_Stop env i (m_pool (y_mgr s))"
      using stop(3) by (auto simp: mgr_Stop_def split: if_splits)
    then show ?thesis
    proof
      assume "m_pool m = m_pool (y_mgr s)"
      with stop(1) show ?thesis by (intro frame) simp
    qed (use stop(1) in \<open>intro exI [of _ "[OpStop i]"], simp add: pool_run_def\<close>)
  qed (rule frame; simp)+
qed

lemma sys_run_pool:
  "(sys_step wired env)\<^sup>*\<^sup>* s s' \<Longrightarrow> \<exists>ops. m_pool (y_mgr s') = pool_run env ops (m_pool (y_mgr s))"
proof (induction rule: rtranclp_induct)
  case base
  show ?case by (rule exI [of _ "[]"]) (simp add: pool_run_def)
next
  case (step s1 s2)
  obtain ops1 where "m_pool (y_mgr s1) = pool_run env ops1 (m_pool (y_mgr s))" using step.IH by blast
  moreover obtain ops2 where "m_pool (y_mgr s2) = pool_run env ops2 (m_pool (y_mgr s1))"
    using sys_step_pool [OF step.hyps(2)] by blast
  ultimately have "m_pool (y_mgr s2) = pool_run env (ops1 @ ops2) (m_pool (y_mgr s))"
    by (simp add: pool_run_def)
  then show ?case by blast
qed

text \<open>While the manager is started, only \<open>Start\<close> and \<open>Stop\<close> could touch the pool, and they do not.\<close>

lemma started_step_pool:
  assumes "sys_step wired env s s'" "m_started (y_mgr s)" "m_started (y_mgr s')"
  shows "m_pool (y_mgr s') = m_pool (y_mgr s)"
  using assms(1)
proof cases
  case (start e m)
  with assms(2) show ?thesis by (simp add: mgr_Start_def)
next
  case (stop i p m)
  with assms(2,3) show ?thesis by (auto simp: mgr_Stop_def split: if_splits)
qed (simp_all add: enqueue_def)

lemma started_run_pool:
  "(\<lambda>a b. sys_step wired env a b \<and> m_started (y_mgr b))\<^sup>*\<^sup>* s s' \<Longrightarrow> m_started (y_mgr s) \<Longrightarrow>
    m_started (y_mgr s') \<and> m_pool (y_mgr s') = m_pool (y_mgr s)"
  by (induction rule: rtranclp_induct) (auto dest: started_step_pool)

text \<open>When nothing is left and everything is counted, the check of \<open>WaitForCompletion\<close> succeeds.\<close>

lemma all_done_check:
  assumes "accounted n c f s" "y_uncounted s = 0" "load s = 0" "y_lost s = 0"
  shows "wait_check (y_mgr s)" "y_taken s = y_sent s"
proof -
  have empty: "y_flight s = []" "chan_buf (m_resultQueue (y_mgr s)) = []" "chan_buf (m_taskQueue (y_mgr s)) = []"
    using assms(3) by (simp_all add: load_def)
  with assms have "n = c + f" by (simp add: accounted_def Let_def)
  with assms(1) empty show "wait_check (y_mgr s)" "y_taken s = y_sent s"
    by (simp_all add: accounted_def Let_def wait_check_def GetTaskQueueLength_def wrap32_id)
qed

text \<open>Every reachable state can be drained and its submissions counted.\<close>

lemma can_complete:
  assumes "NewManager cfg i = Inr (Inr m)" and "(sys_step True env)\<^sup>*\<^sup>* (new_system m) s"
    and "0 < MaxTasksInQueue cfg" and "y_panic s = None" and "m_processing (y_mgr s)" and "y_lost s = 0"
  shows "\<exists>s'. (sys_step True env)\<^sup>*\<^sup>* s s' \<and> y_sent s' = y_sent s \<and> wait_check (y_mgr s') \<and>
    y_flight s' = [] \<and> chan_buf (m_resultQueue (y_mgr s')) = [] \<and> y_lost s' = 0 \<and> y_uncounted s' = 0"
proof -
  have "chan_cap (m_resultQueue (y_mgr s)) = nat (MaxTasksInQueue cfg)"
    using caps_run [OF assms(2)] NewManager_parts [OF assms(1)] by (simp add: new_system_def)
  then have cap: "0 < chan_cap (m_resultQueue (y_mgr s))" using assms(3) by simp
  have "draining s s" using assms(4,5) by (simp add: draining_def)
  from drain [OF this cap] obtain s1 where s1: "(sys_step True env)\<^sup>*\<^sup>* s s1" "draining s s1" "load s1 = 0"
    by blast
  then have "y_panic s1 = None" by (simp add: draining_def)
  from count_all [OF this] obtain s2 where s2: "(sys_step True env)\<^sup>*\<^sup>* s1 s2" "y_uncounted s2 = 0"
    "y_flight s2 = y_flight s1" "y_sent s2 = y_sent s1" "y_lost s2 = y_lost s1"
    "m_taskQueue (y_mgr s2) = m_taskQueue (y_mgr s1)" "m_resultQueue (y_mgr s2) = m_resultQueue (y_mgr s1)"
    by blast
  have run: "(sys_step True env)\<^sup>*\<^sup>* s s2" using s1(1) s2(1) by simp
  then have "(sys_step True env)\<^sup>*\<^sup>* (new_system m) s2" using assms(2) by simp
  then obtain n c f where acc: "accounted n c f s2" using manager_accounted [OF assms(1)] by blast
  have none: "load s2 = 0" "y_lost s2 = 0" "y_sent s2 = y_sent s"
    using s1(2,3) s2 assms(6) by (simp_all add: load_def draining_def)
  from all_done_check(1) [OF acc s2(2) this(1,2)] show ?thesis using run s2(2) none by (auto simp: load_def)
qed

text \<open>A run for the witnesses: one task sent and not yet counted.\<close>

lemma sample_run:
  obtains m :: sample_mgr and s where "NewManager (sample_cfg 1) 0 = Inr (Inr m)"
    "(sys_step wired sample_env)\<^sup>*\<^sup>* (new_system m) s" "y_uncounted s = 1" "y_flight s = []"
    "y_sent s = [sample_task]" "y_lost s = 0" "y_panic s = None" "m_processing (y_mgr s)"
    "chan_buf (m_resultQueue (y_mgr s)) = []" "m_taskQueue (y_mgr s) = \<lparr>chan_buf = [sample_task], chan_cap = 1\<rparr>"
proof -
  obtain m :: sample_mgr where m: "NewManager (sample_cfg 1) 0 = Inr (Inr m)"
    by (rule sample_manager [of 1]) simp_all
  obtain s1 where s1: "(sys_step wired sample_env)\<^sup>*\<^sup>* (new_system m) s1" "idle (nat (MaxTasksInQueue (sample_cfg 1))) s1"
    "y_uncounted s1 = 0" "y_flight s1 = []" "y_lost s1 = 0" "y_sent s1 = []"
    "m_stats (y_mgr s1) = zero_stats" "chan_buf (m_resultQueue (y_mgr s1)) = []"
    by (rule new_system_starts [OF m sample_factory]) simp_all
  have idle: "idle 1 s1" using s1(2) by simp
  obtain s2 where s2: "(sys_step wired sample_env)\<^sup>*\<^sup>* s1 s2" "y_uncounted s2 = Suc (y_uncounted s1)"
    "y_flight s2 = y_flight s1" "y_sent s2 = y_sent s1 @ [sample_task]" "y_lost s2 = y_lost s1" "y_panic s2 = None"
    "m_taskQueue (y_mgr s2) = \<lparr>chan_buf = [sample_task], chan_cap = 1\<rparr>" "m_stats (y_mgr s2) = m_stats (y_mgr s1)"
    "m_resultQueue (y_mgr s2) = m_resultQueue (y_mgr s1)" "m_started (y_mgr s2)" "m_processing (y_mgr s2)"
    "y_pending s2 = []" by (rule idle_send [OF idle _ sample_task_valid]) simp_all
  have "(sys_step wired sample_env)\<^sup>*\<^sup>* (new_system m) s2" using s1(1) s2(1) by simp
  from that [OF m this] s1 s2 show thesis by simp
qed

text \<open>With queues of size one, two tasks in flight and both finished before a result is read: the second
  result is dropped.\<close>

lemma sample_lost_run:
  obtains m :: sample_mgr and s where "NewManager (sample_cfg 1) 0 = Inr (Inr m)"
    "(sys_step True sample_env)\<^sup>*\<^sup>* (new_system m) s" "y_lost s = 1" "y_panic s = None"
    "y_sent s = [sample_task, sample_task]"
proof -
  obtain m :: sample_mgr where m: "NewManager (sample_cfg 1) 0 = Inr (Inr m)"
    by (rule sample_manager [of 1]) simp_all
  obtain s1 where s1: "(sys_step True sample_env)\<^sup>*\<^sup>* (new_system m) s1" "idle (nat (MaxTasksInQueue (sample_cfg 1))) s1"
    "y_uncounted s1 = 0" "y_flight s1 = []" "y_lost s1 = 0" "y_sent s1 = []"
    "m_stats (y_mgr s1) = zero_stats" "chan_buf (m_resultQueue (y_mgr s1)) = []"
    by (rule new_system_starts [OF m sample_factory]) simp_all
  have idle1: "idle 1 s1" using s1(2) by simp
  obtain s2 where s2: "(sys_step True sample_env)\<^sup>*\<^sup>* s1 s2" "idle 1 s2" "y_uncounted s2 = Suc (y_uncounted s1)"
    "y_flight s2 = y_flight s1 @ [sample_task]" "y_sent s2 = y_sent s1 @ [sample_task]" "y_lost s2 = y_lost s1"
    "m_stats (y_mgr s2) = m_stats (y_mgr s1)" "m_resultQueue (y_mgr s2) = m_resultQueue (y_mgr s1)"
    by (rule idle_send_take [OF idle1 _ sample_task_valid]) simp_all
  obtain s3 where s3: "(sys_step True sample_env)\<^sup>*\<^sup>* s2 s3" "idle 1 s3" "y_uncounted s3 = Suc (y_uncounted s2)"
    "y_flight s3 = y_flight s2 @ [sample_task]" "y_sent s3 = y_sent s2 @ [sample_task]" "y_lost s3 = y_lost s2"
    "m_stats (y_mgr s3) = m_stats (y_mgr s2)" "m_resultQueue (y_mgr s3) = m_resultQueue (y_mgr s2)"
    by (rule idle_send_take [OF s2(2) _ sample_task_valid]) simp_all
  let ?r = "plain_result sample_task" and ?q = "\<lparr>chan_buf = [plain_result sample_task], chan_cap = 1\<rparr>"
  have q3: "m_resultQueue (y_mgr s3) = \<lparr>chan_buf = [], chan_cap = 1\<rparr>"
    using s1(8) s2(8) s3(2,8) by (cases "m_resultQueue (y_mgr s3)") (simp add: idle_def)
  let ?s4 = "s3\<lparr>y_mgr := (y_mgr s3)\<lparr>m_resultQueue := ?q\<rparr>, y_flight := remove1 sample_task (y_flight s3),
    y_lost := (if True then y_lost s3 else Suc (y_lost s3))\<rparr>"
  let ?s5 = "?s4\<lparr>y_mgr := (y_mgr ?s4)\<lparr>m_resultQueue := ?q\<rparr>, y_flight := remove1 sample_task (y_flight ?s4),
    y_lost := (if False then y_lost ?s4 else Suc (y_lost ?s4))\<rparr>"
  have flight: "y_flight s3 = [sample_task, sample_task]" using s1 s2 s3 by simp
  have "sys_step True sample_env s3 ?s4"
    by (rule sys_step.finish [where r = ?r])
      (use s3(2) q3 flight in \<open>simp_all add: idle_def try_send_def plain_result_def\<close>)
  moreover have "sys_step True sample_env ?s4 ?s5"
    by (rule sys_step.finish [where r = ?r])
      (use s3(2) q3 flight in \<open>simp_all add: idle_def try_send_def plain_result_def\<close>)
  ultimately have "(sys_step True sample_env)\<^sup>*\<^sup>* s3 ?s5" by (meson converse_rtranclp_into_rtranclp r_into_rtranclp)
  then have "(sys_step True sample_env)\<^sup>*\<^sup>* (new_system m) ?s5" using s1(1) s2(1) s3(1) by (meson rtranclp_trans)
  from that [OF m this] s1 s2 s3 show thesis by (simp add: idle_def)
qed

section \<open>Properties\<close>

text \<open>C1: Conservation: in every reachable state, with or without workers on the queues and under every
  interleaving, each task sent to the queue is waiting, held by a worker, in the result queue, dropped,
  completed or failed, and the counters are the wrapped counts of these; workers take tasks in the order
  in which they were sent, whatever their priorities.\<close>

theorem system_accounting:
  assumes "NewManager cfg i = Inr (Inr m)" and "(sys_step wired env)\<^sup>*\<^sup>* (new_system m) s"
  shows "\<exists>n c f.
    tasksSubmitted (m_stats (y_mgr s)) = wrap64 (int n) \<and>
    tasksCompleted (m_stats (y_mgr s)) = wrap64 (int c) \<and>
    tasksFailed (m_stats (y_mgr s)) = wrap64 (int f) \<and>
    tasksInProgress (m_stats (y_mgr s)) = wrap32 (int n - int (c + f)) \<and>
    n + y_uncounted s = length (chan_buf (m_taskQueue (y_mgr s))) + length (y_flight s) +
      length (chan_buf (m_resultQueue (y_mgr s))) + y_lost s + c + f \<and>
    y_sent s = y_taken s @ chan_buf (m_taskQueue (y_mgr s))"
proof -
  obtain n c f where "accounted n c f s" using manager_accounted [OF assms] by blast
  then show ?thesis
    by (intro exI [of _ n] exI [of _ c] exI [of _ f]) (simp add: accounted_def Let_def)
qed

theorem system_accounting_witness:
  "\<exists>(m :: sample_mgr) s n c f. NewManager (sample_cfg 1) 0 = Inr (Inr m) \<and>
    (sys_step True sample_env)\<^sup>*\<^sup>* (new_system m) s \<and> y_sent s = [sample_task] \<and>
    tasksSubmitted (m_stats (y_mgr s)) = wrap64 (int n) \<and> n + 1 = 1 + c + f"
proof -
  obtain m :: sample_mgr and s where r: "NewManager (sample_cfg 1) 0 = Inr (Inr m)"
    "(sys_step True sample_env)\<^sup>*\<^sup>* (new_system m) s" "y_uncounted s = 1" "y_flight s = []"
    "y_sent s = [sample_task]" "y_lost s = 0" "y_panic s = None" "m_processing (y_mgr s)"
    "chan_buf (m_resultQueue (y_mgr s)) = []" "m_taskQueue (y_mgr s) = \<lparr>chan_buf = [sample_task], chan_cap = 1\<rparr>"
    by (rule sample_run)
  obtain n c f where "tasksSubmitted (m_stats (y_mgr s)) = wrap64 (int n)" "n + 1 = 1 + c + f"
    using system_accounting [OF r(1,2)] r by auto
  with r show ?thesis by blast
qed

text \<open>C2: When the check of \<open>WaitForCompletion\<close> succeeds and every submission has been counted, all the
  work is done: no task waits, no worker holds one, no result is pending and none was dropped, and the
  completed and the failed tasks are all the tasks that were sent (for fewer than \<open>2 ^ 31\<close> of them).\<close>

theorem wait_check_sound:
  assumes "NewManager cfg i = Inr (Inr m)" and "(sys_step wired env)\<^sup>*\<^sup>* (new_system m) s"
    and "y_uncounted s = 0" and "length (y_sent s) < 2 ^ 31" and "wait_check (y_mgr s)"
  shows "y_flight s = [] \<and> chan_buf (m_resultQueue (y_mgr s)) = [] \<and> y_lost s = 0 \<and>
    tasksCompleted (m_stats (y_mgr s)) + tasksFailed (m_stats (y_mgr s)) = int (length (y_sent s)) \<and>
    tasksSubmitted (m_stats (y_mgr s)) = int (length (y_sent s))"
proof -
  obtain n c f where acc: "accounted n c f s" using manager_accounted [OF assms(1,2)] by blast
  note w = wait_check_counts [OF acc assms(3,5,4)]
  have "c \<le> n" "f \<le> n" "n < 2 ^ 31" using w assms(4) by simp_all
  then have "wrap64 (int n) = int n" "wrap64 (int c) = int c" "wrap64 (int f) = int f"
    by (simp_all add: wrap64_id)
  then show ?thesis using w acc by (simp add: accounted_def Let_def)
qed

theorem wait_check_sound_witness:
  "\<exists>(m :: sample_mgr) s. (sys_step True sample_env)\<^sup>*\<^sup>* (new_system m) s \<and> wait_check (y_mgr s) \<and>
    y_sent s = [sample_task] \<and>
    tasksCompleted (m_stats (y_mgr s)) + tasksFailed (m_stats (y_mgr s)) = 1"
proof -
  obtain m :: sample_mgr and s where r: "NewManager (sample_cfg 1) 0 = Inr (Inr m)"
    "(sys_step True sample_env)\<^sup>*\<^sup>* (new_system m) s" "y_uncounted s = 1" "y_flight s = []"
    "y_sent s = [sample_task]" "y_lost s = 0" "y_panic s = None" "m_processing (y_mgr s)"
    "chan_buf (m_resultQueue (y_mgr s)) = []" "m_taskQueue (y_mgr s) = \<lparr>chan_buf = [sample_task], chan_cap = 1\<rparr>"
    by (rule sample_run)
  obtain s' where s': "(sys_step True sample_env)\<^sup>*\<^sup>* s s'" "y_sent s' = y_sent s" "wait_check (y_mgr s')"
    "y_uncounted s' = 0"
    using can_complete [OF r(1,2) _ r(7,8,6)] by auto
  then have "(sys_step True sample_env)\<^sup>*\<^sup>* (new_system m) s'" using r(2) by simp
  from wait_check_sound [OF r(1) this s'(4)] s' r this show ?thesis by auto
qed



text \<open>C14: In the program, where no worker holds the manager's queues, no task is ever taken, completed or
  failed: the task queue just fills up to its capacity with the submitted tasks, and once one has been
  sent the check of \<open>WaitForCompletion\<close> fails for ever, so that it can only return its context's error.\<close>

theorem manager_never_completes:
  assumes "NewManager cfg i = Inr (Inr m)" and "(sys_step False env)\<^sup>*\<^sup>* (new_system m) s"
  shows "tasksCompleted (m_stats (y_mgr s)) = 0 \<and> tasksFailed (m_stats (y_mgr s)) = 0 \<and>
    chan_buf (m_taskQueue (y_mgr s)) = y_sent s \<and> int (length (y_sent s)) \<le> MaxTasksInQueue cfg \<and>
    chan_buf (m_resultQueue (y_mgr s)) = [] \<and> (y_sent s = [] \<or> \<not> wait_check (y_mgr s))"
proof -
  note parts = NewManager_parts [OF assms(1)]
  have "stuck (new_system m)" using parts by (simp add: stuck_def new_system_def)
  then have st: "stuck s" "chan_cap (m_taskQueue (y_mgr s)) = nat (MaxTasksInQueue cfg)"
    using stuck_run [OF assms(2)] parts by (simp_all add: new_system_def)
  obtain n c f where acc: "accounted n c f s" using manager_accounted [OF assms] by blast
  then have "c = 0" "f = 0" "y_sent s = chan_buf (m_taskQueue (y_mgr s))"
    using st by (auto simp: accounted_def stuck_def Let_def)
  then show ?thesis
    using acc st parts(10) by (auto simp: accounted_def stuck_def Let_def wrap64_id wait_check_def GetTaskQueueLength_def)
qed

theorem manager_never_completes_witness:
  "\<exists>(m :: sample_mgr) s. (sys_step False sample_env)\<^sup>*\<^sup>* (new_system m) s \<and> y_sent s = [sample_task] \<and>
    tasksCompleted (m_stats (y_mgr s)) = 0 \<and> \<not> wait_check (y_mgr s)"
proof -
  obtain m :: sample_mgr and s where r: "NewManager (sample_cfg 1) 0 = Inr (Inr m)"
    "(sys_step False sample_env)\<^sup>*\<^sup>* (new_system m) s" "y_uncounted s = 1" "y_flight s = []"
    "y_sent s = [sample_task]" "y_lost s = 0" "y_panic s = None" "m_processing (y_mgr s)"
    "chan_buf (m_resultQueue (y_mgr s)) = []" "m_taskQueue (y_mgr s) = \<lparr>chan_buf = [sample_task], chan_cap = 1\<rparr>"
    by (rule sample_run)
  from manager_never_completes [OF r(1,2)] r show ?thesis by auto
qed







text \<open>C13: Once submissions stop, the work ends: under every interleaving, with any number of other steps
  (ticks, scaling, starts and stops) in between, only finitely many steps can take a task, finish one or
  settle a result.\<close>

theorem work_terminates:
  "wf {(s', s). \<exists>u. (quiet_step wired env)\<^sup>*\<^sup>* s u \<and> work_step wired env u s'}"
proof (rule wf_subset [OF wf_measure [of load]])
  show "{(s', s). \<exists>u. (quiet_step wired env)\<^sup>*\<^sup>* s u \<and> work_step wired env u s'} \<subseteq> measure load"
    using work_step_load quiet_steps_load by fastforce
qed

text \<open>C16: The number of workers never changes while a manager runs: a manager that starts with a factory
  that succeeds has its initial number of workers as long as it stays started, whatever the monitor
  decides and whatever \<open>ForceScaleWorkers\<close> is asked for, because nobody reads the control channel of the
  resource controller.\<close>

theorem pool_size_fixed:
  assumes "NewManager cfg i = Inr (Inr m)" and "mgr_Start env m = (None, m1)" and "factory_total env"
    and "InitialWorkers cfg \<le> 2147483647"
    and "(\<lambda>a b. sys_step wired env a b \<and> m_started (y_mgr b))\<^sup>*\<^sup>* ((new_system m)\<lparr>y_mgr := m1\<rparr>) s"
  shows "GetWorkerCount (y_mgr s) = InitialWorkers cfg"
proof -
  note m1 = mgr_Start_workers [OF assms(1-4)]
  have "m_pool (y_mgr s) = m_pool m1" using started_run_pool [OF assms(5)] m1(1) by simp
  then show ?thesis using m1(2) by (simp add: GetWorkerCount_def)
qed

theorem pool_size_fixed_witness:
  "\<exists>(m :: sample_mgr) m1. mgr_Start sample_env m = (None, m1) \<and>
    (let s = (new_system m)\<lparr>y_mgr := ForceScaleWorkers 3 0 m1\<rparr>
     in sys_step False sample_env ((new_system m)\<lparr>y_mgr := m1\<rparr>) s \<and> GetWorkerCount (y_mgr s) = 4)"
proof -
  obtain m :: sample_mgr where m: "NewManager (sample_cfg 1) 0 = Inr (Inr m)"
    by (rule sample_manager [of 1]) simp_all
  obtain m1 where m1: "mgr_Start sample_env m = (None, m1)" "m_started m1"
    by (rule NewManager_starts [OF m sample_factory])
  let ?s1 = "(new_system m)\<lparr>y_mgr := m1\<rparr>" and ?s2 = "(new_system m)\<lparr>y_mgr := ForceScaleWorkers 3 0 m1\<rparr>"
  have "sys_step False sample_env ?s1 (?s1\<lparr>y_mgr := ForceScaleWorkers 3 0 (y_mgr ?s1)\<rparr>)"
    by (rule sys_step.force) (simp add: new_system_def)
  then have step: "sys_step False sample_env ?s1 ?s2" by simp
  moreover have "m_started (y_mgr ?s2)" using m1(2) by (simp add: ForceScaleWorkers_def)
  ultimately have "(\<lambda>a b. sys_step False sample_env a b \<and> m_started (y_mgr b))\<^sup>*\<^sup>* ?s1 ?s2" by blast
  from pool_size_fixed [OF m m1(1) sample_factory _ this] have "GetWorkerCount (y_mgr ?s2) = 4" by simp
  with m1(1) step show ?thesis by (auto simp: Let_def)
qed

end
