(* ===== verification/Middleware.thy ===== *)
theory Middleware
  imports Worker Float64
begin

text \<open>
  Middleware (\<open>pkg/middleware/middleware.go\<close>): a handler runs a task under a context in the world and
  ends in an outcome; a middleware maps handlers to handlers.  \<open>Chain\<close> composes them, \<open>Logging\<close>,
  \<open>Recovery\<close>, \<open>Timeout\<close> and \<open>Retry\<close> are the four that the package offers, and \<open>WrapTask\<close> makes a task
  of a task and a middleware.  The counter of \<open>Retry\<close> is an unbounded integer.
\<close>

type_synonym ('o, 'cb) handler = "ctx \<Rightarrow> ('o, 'cb) task \<Rightarrow> world \<Rightarrow> 'o outcome \<times> world"
type_synonym ('o, 'cb) middleware = "('o, 'cb) handler \<Rightarrow> ('o, 'cb) handler"

section \<open>Chain\<close>

fun chain_loop :: "('o, 'cb) middleware list \<Rightarrow> nat \<Rightarrow> ('o, 'cb) handler \<Rightarrow> ('o, 'cb) handler" where
  "chain_loop ms 0 next = next"
| "chain_loop ms (Suc i) next = chain_loop ms i ((ms ! i) next)"

definition Chain :: "('o, 'cb) middleware list \<Rightarrow> ('o, 'cb) middleware" where
  "Chain ms next = chain_loop ms (length ms) next"

section \<open>The middleware of the package\<close>

definition LoggingMiddleware :: "('o, 'cb) middleware" where
  "LoggingMiddleware next c t w =
     (let start = now w
      in case next c t w of
           (Return output err, w') \<Rightarrow>
             let d = duration_string (time_sub (now w') start)
             in (Return output err,
                 case err of
                   Some e \<Rightarrow> log_line (''Task '' @ t_id t @ '' failed after '' @ d @ '': '' @ error_text e) w'
                 | None \<Rightarrow> log_line (''Task '' @ t_id t @ '' completed in '' @ d) w')
         | (other, w') \<Rightarrow> (other, w'))"

definition recovered :: "string \<Rightarrow> panic_val \<Rightarrow> go_error" where
  "recovered tid v =
     (case v of
        PanicError e \<Rightarrow> e
      | PanicString s \<Rightarrow> NewTaskError tid 0 (''panic: '' @ s) None
      | PanicOther \<Rightarrow> NewTaskError tid 0 ''panic: unknown'' None)"

definition RecoveryMiddleware :: "('o, 'cb) middleware" where
  "RecoveryMiddleware next c t w =
     (case next c t w of
        (Panic v, w') \<Rightarrow> (Return None (Some (recovered (t_id t) v)), w')
      | (other, w') \<Rightarrow> (other, w'))"

definition TimeoutMiddleware :: "duration \<Rightarrow> ('o, 'cb) middleware" where
  "TimeoutMiddleware timeout next c t w = next (with_timeout c timeout (now w)) t w"

text \<open>The backoff of \<open>RetryMiddleware\<close>, in floating point up to the conversion to milliseconds; the
  multiplication by a millisecond is an \<open>int64\<close> multiplication.\<close>

definition retry_backoff :: "nat \<Rightarrow> float64 \<Rightarrow> duration" where
  "retry_backoff attempt factor =
     (let backoffMs = f_to_int (f_mult (f_mult (f_of_int 50) (f_pow2 attempt)) factor);
          backoff = wrap64 (backoffMs * millisecond)
      in if backoff > 5 * second then 5 * second else backoff)"

function retry_attempts ::
  "goint \<Rightarrow> float64 \<Rightarrow> ('o, 'cb) handler \<Rightarrow> ctx \<Rightarrow> ('o, 'cb) task \<Rightarrow> nat \<Rightarrow> go_error option \<Rightarrow> world \<Rightarrow>
    'o outcome \<times> world" where
  "retry_attempts maxRetries factor next c t attempt lastErr w =
     (if maxRetries < int attempt
      then (Return None (Some (NewTaskError (t_id t) (wrap64 (maxRetries + 1)) ''max retries exceeded'' lastErr)), w)
      else
        (case next c t w of
           (Return output None, w') \<Rightarrow> (Return output None, w')
         | (Return output (Some e), w') \<Rightarrow>
             (case ctx_err c (now w') of
                Some ce \<Rightarrow> (Return None (Some ce), w')
              | None \<Rightarrow>
                  if int attempt < maxRetries
                  then (case select_done c (now w' + retry_backoff attempt factor) w' of
                          (Some ce, w'') \<Rightarrow> (Return None (Some ce), w'')
                        | (None, w'') \<Rightarrow>
                            retry_attempts maxRetries factor next c t (Suc attempt) (Some e) w'')
                  else retry_attempts maxRetries factor next c t (Suc attempt) (Some e) w')
         | (other, w') \<Rightarrow> (other, w')))"
  by pat_completeness auto
termination
  by (relation "measure (\<lambda>(maxRetries, factor, next, c, t, attempt, lastErr, w).
      nat (maxRetries + 1 - int attempt))") auto

declare retry_attempts.simps [simp del]

definition RetryMiddleware :: "goint \<Rightarrow> float64 \<Rightarrow> ('o, 'cb) middleware" where
  "RetryMiddleware maxRetries factor next c t w =
     retry_attempts maxRetries factor next c t 0 None w"

section \<open>Wrapped tasks\<close>

text \<open>The embedded interface supplies every method but \<open>Execute\<close>.\<close>

definition WrapTask :: "('o, 'cb) task \<Rightarrow> ('o, 'cb) middleware \<Rightarrow> ('o, 'cb) task" where
  "WrapTask task middleware =
     task\<lparr>t_execute := (\<lambda>c w. middleware (\<lambda>c' t' w'. t_execute t' c' w') c task w),
          t_dyn := DynWrappedTask\<rparr>"

section \<open>Facts\<close>

lemma chain_loop_append: "n \<le> length ms \<Longrightarrow> chain_loop (ms @ ms') n h = chain_loop ms n h"
  by (induction n arbitrary: h) (auto simp: nth_append)

lemma chain_loop_foldr: "chain_loop ms (length ms) h = foldr (\<lambda>m. m) ms h"
proof (induction ms arbitrary: h rule: rev_induct)
  case (snoc m ms)
  then show ?case by (simp add: chain_loop_append nth_append)
qed simp

lemma Chain_foldr: "Chain ms h = foldr (\<lambda>m. m) ms h"
  by (simp add: Chain_def chain_loop_foldr)

lemma Chain_simps [simp]: "Chain [] h = h" "Chain (m # ms) h = m (Chain ms h)"
  by (simp_all add: Chain_foldr)

lemma retry_backoff_capped: "retry_backoff a f \<le> 5 * second"
  by (simp add: retry_backoff_def Let_def)

lemma backoff_ms:
  assumes "a \<le> 57"
  shows "f_to_int (f_mult (f_mult (f_of_int 50) (f_pow2 a)) (Fin 1)) = 50 * 2 ^ a"
proof -
  have eq: "50 * (2::rat) ^ a = of_int 25 * 2 powi (int a + 1)" by (simp add: power_int_add)
  have r: "f_round (50 * (2::rat) ^ a) = Fin (50 * 2 ^ a)"
    unfolding eq by (rule f_round_exact) (use assms in auto)
  have "f_mult (f_mult (f_of_int 50) (f_pow2 a)) (Fin 1) = Fin (50 * 2 ^ a)"
    using assms r by (simp add: f_of_int_exact f_pow2_exact)
  moreover have "50 * (2::int) ^ a \<le> 50 * 2 ^ 57"
    using power_increasing [OF assms, of "2::int"] by simp
  moreover have "f_trunc (50 * 2 ^ a) = 50 * 2 ^ a"
    using floor_of_int [of "50 * 2 ^ a", where 'a = rat] by (simp add: f_trunc_def)
  ultimately show ?thesis by (simp add: in64_def order_trans [of _ "0::int"])
qed

lemma retry_backoff_unit:
  assumes "a \<le> 37"
  shows "retry_backoff a (Fin 1) = min (5 * second) (50 * 2 ^ a * millisecond)"
proof -
  have "(2::int) ^ a \<le> 2 ^ 37" using assms by (intro power_increasing) auto
  then have "wrap64 (50 * 2 ^ a * millisecond) = 50 * 2 ^ a * millisecond"
    by (intro wrap64_id) (simp_all add: order_trans [of _ "0::int"])
  then show ?thesis
    using backoff_ms [of a] assms unfolding retry_backoff_def by (auto simp: Let_def min_def wrap64_id)
qed

text \<open>What a retrying handler should do with a scripted one, as for the worker's own retries: the
  outcome and the number of calls made when it is done.\<close>

definition retry_mw_spec ::
  "string \<Rightarrow> goint \<Rightarrow> (nat \<Rightarrow> 'o option \<times> go_error option) \<Rightarrow> nat \<Rightarrow> nat \<Rightarrow> 'o outcome \<times> nat" where
  "retry_mw_spec tid maxRetries outs k n =
     (case first_success outs k (Suc n) of
        Some j \<Rightarrow> (Return (fst (outs j)) None, Suc j)
      | None \<Rightarrow> (Return None (Some (NewTaskError tid (wrap64 (maxRetries + 1)) ''max retries exceeded''
          (snd (outs (k + n))))), k + Suc n))"

lemma retry_mw_spec_step:
  "snd (outs k) = Some e \<Longrightarrow> retry_mw_spec tid m outs k (Suc n) = retry_mw_spec tid m outs (Suc k) n"
  by (simp add: retry_mw_spec_def first_success.simps(2) [of outs k "Suc n"]
      del: first_success.simps split: option.split)

lemma retry_attempts_scripted:
  fixes t :: "('o, 'cb) task" and outs :: "nat \<Rightarrow> 'o option \<times> go_error option"
  shows "\<exists>w'. retry_attempts (int (a + n)) factor (\<lambda>c t. call_func (scripted outs dur) c) background t a lastErr w
      = (fst (retry_mw_spec (t_id t) (int (a + n)) outs (calls w) n), w') \<and>
    calls w' = snd (retry_mw_spec (t_id t) (int (a + n)) outs (calls w) n)"
proof (induction n arbitrary: a lastErr w)
  case 0
  let ?h = "\<lambda>c (t :: ('o, 'cb) task). call_func (scripted outs dur) c"
  let ?m = "int a"
  have last: "retry_attempts ?m factor ?h background t (Suc a) le w1 =
      (Return None (Some (NewTaskError (t_id t) (wrap64 (?m + 1)) ''max retries exceeded'' le)), w1)" for le w1
    by (subst retry_attempts.simps) simp
  show ?case
    by (cases "snd (outs (calls w))"; subst retry_attempts.simps)
      (simp_all add: last call_func_def scripted_def retry_mw_spec_def)
next
  case (Suc n)
  let ?h = "\<lambda>c (t :: ('o, 'cb) task). call_func (scripted outs dur) c"
  show ?case
  proof (cases "snd (outs (calls w))")
    case None
    then show ?thesis
      by (subst retry_attempts.simps) (simp add: call_func_def scripted_def retry_mw_spec_def)
  next
    case (Some e)
    let ?w1 = "(advance (dur (calls w)) w)\<lparr>calls := Suc (calls w)\<rparr>"
    let ?w2 = "?w1\<lparr>now := max (now ?w1) (now ?w1 + retry_backoff a factor)\<rparr>"
    have "retry_attempts (int (a + Suc n)) factor ?h background t a lastErr w =
        retry_attempts (int (Suc a + n)) factor ?h background t (Suc a) (Some e) ?w2"
      using Some by (subst retry_attempts.simps)
        (simp add: call_func_def scripted_def select_done_def background_def ctx_err_def)
    then show ?thesis using Suc.IH [of "Suc a" "Some e" ?w2] retry_mw_spec_step [of outs "calls w" e] Some
      by simp
  qed
qed

text \<open>The same under any context, from the outcome of the last attempt made.\<close>

definition retry_result ::
  "string \<Rightarrow> goint \<Rightarrow> bool \<Rightarrow> 'o option \<times> go_error option \<Rightarrow> go_error option \<Rightarrow> 'o outcome \<Rightarrow> bool" where
  "retry_result tid maxRetries final out ctxErr r \<longleftrightarrow>
     (case snd out of
        None \<Rightarrow> r = Return (fst out) None
      | Some e \<Rightarrow>
          (case ctxErr of
             Some ce \<Rightarrow> r = Return None (Some ce)
           | None \<Rightarrow> final \<and> r = Return None (Some (NewTaskError tid (wrap64 (maxRetries + 1))
               ''max retries exceeded'' (Some e)))))"

lemma retry_attempts_ctx:
  fixes t :: "('o, 'cb) task" and outs :: "nat \<Rightarrow> 'o option \<times> go_error option"
  assumes "retry_attempts (int (a + n)) factor (\<lambda>c t. call_func (scripted outs dur) c) c t a lastErr w = (r, w')"
  shows "\<exists>j \<le> n. calls w' = calls w + Suc j \<and> (\<forall>i < j. snd (outs (calls w + i)) \<noteq> None) \<and>
    (ctx_err c (now w) \<noteq> None \<longrightarrow> j = 0) \<and>
    retry_result (t_id t) (int (a + n)) (j = n) (outs (calls w + j)) (ctx_err c (now w')) r"
  using assms
proof (induction n arbitrary: a lastErr w)
  case 0
  let ?h = "\<lambda>c (t :: ('o, 'cb) task). call_func (scripted outs dur) c"
  have last: "retry_attempts (int a) factor ?h c t (Suc a) le w1 =
      (Return None (Some (NewTaskError (t_id t) (wrap64 (int a + 1)) ''max retries exceeded'' le)), w1)" for le w1
    by (subst retry_attempts.simps) simp
  let ?w1 = "advance (dur (calls w)) w\<lparr>calls := Suc (calls w)\<rparr>"
  from 0 show ?case
    by (subst (asm) retry_attempts.simps)
      (auto simp: last call_func_def scripted_def retry_result_def split: option.splits)
next
  case (Suc n)
  let ?h = "\<lambda>c (t :: ('o, 'cb) task). call_func (scripted outs dur) c"
  let ?w1 = "(advance (dur (calls w)) w)\<lparr>calls := Suc (calls w)\<rparr>"
  note eq = Suc.prems [unfolded retry_attempts.simps [of "int (a + Suc n)" factor ?h c t a lastErr w]]
  show ?case
  proof (cases "snd (outs (calls w))")
    case None
    with eq show ?thesis by (intro exI [of _ 0]) (auto simp: call_func_def scripted_def retry_result_def)
  next
    case (Some e)
    show ?thesis
    proof (cases "ctx_err c (now ?w1)")
      case (Some ce)
      with eq \<open>snd (outs (calls w)) = Some e\<close> show ?thesis
        by (intro exI [of _ 0]) (auto simp: call_func_def scripted_def retry_result_def)
    next
      case None
      obtain sel w2 where sel: "select_done c (now ?w1 + retry_backoff a factor) ?w1 = (sel, w2)" by fastforce
      have w2: "calls w2 = Suc (calls w)" using calls_select_done [OF sel] by simp
      show ?thesis
      proof (cases sel)
        case (Some ce)
        have "ctx_err c (now w2) = Some ce" using select_done_Some sel Some by blast
        with eq \<open>snd (outs (calls w)) = Some e\<close> None sel w2 Some show ?thesis
          by (intro exI [of _ 0]) (auto simp: call_func_def scripted_def retry_result_def)
      next
        case sel_none: None
        have "retry_attempts (int (Suc a + n)) factor ?h c t (Suc a) (Some e) w2 = (r, w')"
          using eq \<open>snd (outs (calls w)) = Some e\<close> None sel sel_none by (simp add: call_func_def scripted_def)
        from Suc.IH [OF this] obtain j where j: "j \<le> n" "calls w' = calls w2 + Suc j"
          "\<forall>i < j. snd (outs (calls w2 + i)) \<noteq> None"
          "retry_result (t_id t) (int (Suc a + n)) (j = n) (outs (calls w2 + j)) (ctx_err c (now w')) r" by blast
        have "ctx_err c (now w) = None" using None ctx_err_stable [of c "now w" _ "now ?w1"] by (cases "ctx_err c (now w)") auto
        moreover have "\<forall>i < Suc j. snd (outs (calls w + i)) \<noteq> None"
          using j(3) w2 \<open>snd (outs (calls w)) = Some e\<close> by (auto simp: less_Suc_eq_0_disj)
        ultimately show ?thesis using j w2 by (intro exI [of _ "Suc j"]) simp
      qed
    qed
  qed
qed

section \<open>Properties\<close>

text \<open>\<open>Chain\<close> composes: the first middleware of the list is the outermost one, and a chain of two
  lists is the composition of their chains.\<close>

lemma Chain_composes:
  "Chain (m # ms) h = m (Chain ms h) \<and> Chain (ms @ ms') h = Chain ms (Chain ms' h) \<and> Chain [] h = h"
  by (simp add: Chain_foldr)

text \<open>\<open>RetryMiddleware\<close> around a scripted handler, under a context that is never done: it returns the
  first success among the allowed attempts and stops calling there; when all of them fail it has
  called the handler \<open>maxRetries + 1\<close> times and returns a \<open>TaskError\<close> that wraps the last error.\<close>

lemma RetryMiddleware_first_success:
  "\<exists>w'. RetryMiddleware (int n) factor (\<lambda>c t. call_func (scripted outs dur) c) background t w
      = (fst (retry_mw_spec (t_id t) (int n) outs (calls w) n), w') \<and>
    calls w' = snd (retry_mw_spec (t_id t) (int n) outs (calls w) n)"
  using retry_attempts_scripted [of 0 n factor outs dur t None w] by (simp add: RetryMiddleware_def)

text \<open>C29: \<open>RetryMiddleware\<close> around a scripted handler under any context: it makes between one and
  \<open>maxRetries + 1\<close> calls, all but the last of which failed, and only one when the context is already
  done. When the last call succeeded its output is returned; otherwise the error of the context is
  returned when that has ended, and else all the attempts were made and the result is a \<open>TaskError\<close>
  that wraps the last error.\<close>

theorem RetryMiddleware_correct:
  assumes "RetryMiddleware (int n) factor (\<lambda>c t. call_func (scripted outs dur) c) c t w = (r, w')"
  shows "\<exists>j \<le> n. calls w' = calls w + Suc j \<and> (\<forall>i < j. snd (outs (calls w + i)) \<noteq> None) \<and>
    (ctx_err c (now w) \<noteq> None \<longrightarrow> j = 0) \<and>
    (case snd (outs (calls w + j)) of
       None \<Rightarrow> r = Return (fst (outs (calls w + j))) None
     | Some e \<Rightarrow>
         (case ctx_err c (now w') of
            Some ce \<Rightarrow> r = Return None (Some ce)
          | None \<Rightarrow> j = n \<and> r = Return None (Some (NewTaskError (t_id t) (wrap64 (int n + 1))
              ''max retries exceeded'' (Some e)))))"
  using retry_attempts_ctx [of 0 n factor outs dur c t None w r w'] assms
  by (simp add: RetryMiddleware_def retry_result_def)

theorem RetryMiddleware_correct_witness:
  "\<exists>w'. RetryMiddleware (int 3) (Fin 1) (\<lambda>c t. call_func (scripted flaky_outs (\<lambda>_. 5)) c)
      background (scripted_task 2 flaky_outs) sample_world = (Return (Some 42) None, w') \<and> calls w' = 3"
proof -
  obtain r w' where run: "RetryMiddleware (int 3) (Fin 1)
      (\<lambda>c (t :: (nat, unit) task). call_func (scripted flaky_outs (\<lambda>_. 5)) c)
      background (scripted_task 2 flaky_outs) sample_world = (r, w')" by fastforce
  from RetryMiddleware_correct [OF run] obtain j where j: "j \<le> 3" "calls w' = Suc j"
    "\<forall>i < j. snd (flaky_outs i) \<noteq> None"
    "snd (flaky_outs j) = None \<longrightarrow> r = Return (fst (flaky_outs j)) None"
    "snd (flaky_outs j) \<noteq> None \<longrightarrow> j = 3"
    by (auto simp: sample_world_def split: option.splits)
  have "j = 2" using j(1,3,5) spec [OF j(3), of 2] by (auto simp: flaky_outs_def split: if_splits)
  with j run show ?thesis by (simp add: flaky_outs_def)
qed


text \<open>A worker that executes a task wrapped in \<open>RecoveryMiddleware\<close> never panics, unless a goroutine
  started by the task does.\<close>

lemma recovery_protects_worker:
  assumes "\<forall>w v w'. t_execute t c w \<noteq> (Crash v, w')" and "effective_retries t (x_worker s) < max_int64"
  shows "fst (ExecuteTask c (WrapTask t RecoveryMiddleware) s) = None"
proof -
  let ?t = "WrapTask t RecoveryMiddleware"
  have ok: "t_execute ?t c w \<noteq> (Panic v, w') \<and> t_execute ?t c w \<noteq> (Crash v, w')" for w v w'
    using assms(1) by (cases "t_execute t c w"; cases "fst (t_execute t c w)")
      (auto simp: WrapTask_def RecoveryMiddleware_def)
  have "effective_retries ?t (x_worker s) < max_int64"
    using assms(2) by (auto simp: effective_retries_def WrapTask_def split: if_splits)
  with ok show ?thesis by (rule ExecuteTask_no_panic)
qed

definition panicking_task :: "duration \<Rightarrow> (nat, unit) function_task" where
  "panicking_task d = sample_ft d (Panic (PanicString ''boom''), 1)"

text \<open>\<open>RecoveryMiddleware\<close> does not protect against a panic of a \<open>FunctionTask\<close> with a timeout, whose
  function runs on a goroutine of its own: the process dies.\<close>

lemma recovery_misses_timeout_tasks:
  assumes "0 < ft_timeout t" and "Function (ft_simple t) = Some f"
    and "\<forall>c' i k. f c' i k = (Panic v, d)" and "int d < ft_timeout t"
  shows "fst (t_execute (WrapTask (ft_iface t) RecoveryMiddleware) background w) = Crash v"
  using assms
  by (simp add: WrapTask_def RecoveryMiddleware_def ft_iface_def ft_Execute_def simple_Execute_def
      call_func_def select_done_def with_timeout_def background_def Let_def)

text \<open>The order in a chain matters: logging outside of recovery records a panic as a failure of the
  task, logging inside of it records nothing.\<close>

lemma logging_recovery_order:
  assumes "h c t w = (Panic v, w')"
  shows "Chain [LoggingMiddleware, RecoveryMiddleware] h c t w =
      (Return None (Some (recovered (t_id t) v)),
       log_line (''Task '' @ t_id t @ '' failed after '' @ duration_string (time_sub (now w') (now w)) @
         '': '' @ error_text (recovered (t_id t) v)) w') \<and>
    Chain [RecoveryMiddleware, LoggingMiddleware] h c t w =
      (Return None (Some (recovered (t_id t) v)), w')"
  using assms by (simp add: LoggingMiddleware_def RecoveryMiddleware_def Let_def)

end
