(* ===== verification/Factory.thy ===== *)
theory Factory
  imports Runtime
begin

text \<open>
  Factories and the generic object pool (\<open>internal/factory/factory.go\<close>).

  A creation function may do anything to the rest of the program, so it is a function of a state
  \<open>'s\<close> that every operation threads through.  \<open>WorkerFactoryFunc\<close> wraps a creation function that may
  be nil.  The object pool is a stack of idle objects.
\<close>

section \<open>Worker factories\<close>

type_synonym ('t, 's) create_fn = "'s \<Rightarrow> (go_error + 't) \<times> 's"

record ('t, 's) worker_factory =
  createFn :: "(goint \<Rightarrow> ('t, 's) create_fn) option"

definition NewWorkerFactory :: "(goint \<Rightarrow> ('t, 's) create_fn) option \<Rightarrow> ('t, 's) worker_factory" where
  "NewWorkerFactory fn = \<lparr>createFn = fn\<rparr>"

definition CreateWithID :: "('t, 's) worker_factory \<Rightarrow> goint \<Rightarrow> ('t, 's) create_fn" where
  "CreateWithID f n s =
     (case createFn f of
        None \<Rightarrow> (Inl (ErrorNew ''worker factory function is nil''), s)
      | Some fn \<Rightarrow> fn n s)"

definition wf_Create :: "('t, 's) worker_factory \<Rightarrow> ('t, 's) create_fn" where
  "wf_Create f = CreateWithID f 0"

section \<open>The object pool\<close>

record 't object_pool =
  op_objects :: "'t list"
  op_initialized :: bool
  op_maxSize :: goint

fun op_init_loop ::
  "('t, 's) create_fn \<Rightarrow> nat \<Rightarrow> 't object_pool \<Rightarrow> 's \<Rightarrow> (go_error + 't object_pool) \<times> 's" where
  "op_init_loop create 0 p s = (Inr p, s)"
| "op_init_loop create (Suc k) p s =
     (case create s of
        (Inl e, s') \<Rightarrow> (Inl (Errorf ''failed to initialize pool object: '' e), s')
      | (Inr x, s') \<Rightarrow> op_init_loop create k (p\<lparr>op_objects := op_objects p @ [x]\<rparr>) s')"

text \<open>\<open>make([]T, 0, n)\<close> panics on a negative capacity.\<close>

definition op_NewPool ::
  "('t, 's) create_fn \<Rightarrow> goint \<Rightarrow> goint \<Rightarrow> 's \<Rightarrow> panic_val + ((go_error + 't object_pool) \<times> 's)" where
  "op_NewPool create initialSize maxSize s =
     (if initialSize < 0 then Inl (PanicError (ErrorNew ''makeslice: cap out of range''))
      else
        let p = \<lparr>op_objects = [], op_initialized = False, op_maxSize = maxSize\<rparr>
        in Inr (case op_init_loop create (nat initialSize) p s of
                  (Inl e, s') \<Rightarrow> (Inl e, s')
                | (Inr p', s') \<Rightarrow> (Inr (p'\<lparr>op_initialized := True\<rparr>), s')))"

definition op_Get ::
  "('t, 's) create_fn \<Rightarrow> ctx \<Rightarrow> instant \<Rightarrow> 't object_pool \<Rightarrow> 's \<Rightarrow> (go_error + 't) \<times> 't object_pool \<times> 's" where
  "op_Get create c i p s =
     (case ctx_err c i of
        Some e \<Rightarrow> (Inl e, p, s)
      | None \<Rightarrow>
          let n = length (op_objects p)
          in if n > 0 then (Inr (op_objects p ! (n - 1)), p\<lparr>op_objects := take (n - 1) (op_objects p)\<rparr>, s)
             else if \<not> op_initialized p \<or> op_maxSize p < 0 \<or> (op_maxSize p > 0 \<and> int n < op_maxSize p)
             then (case create s of (r, s') \<Rightarrow> (r, p, s'))
             else (Inl (ErrorNew ''pool exhausted''), p, s))"

definition op_Put :: "'t \<Rightarrow> 't object_pool \<Rightarrow> 't object_pool" where
  "op_Put x p =
     (if op_maxSize p < 0 \<or> (op_maxSize p > 0 \<and> int (length (op_objects p)) < op_maxSize p)
      then p\<lparr>op_objects := op_objects p @ [x]\<rparr> else p)"

definition op_Size :: "'t object_pool \<Rightarrow> goint" where
  "op_Size p = int (length (op_objects p))"

section \<open>Runs of the pool\<close>

datatype 't pool_call = CallGet ctx instant | CallPut 't

fun op_step :: "('t, 's) create_fn \<Rightarrow> 't object_pool \<times> 's \<Rightarrow> 't pool_call \<Rightarrow> 't object_pool \<times> 's" where
  "op_step create (p, s) (CallGet c i) = (case op_Get create c i p s of (r, p', s') \<Rightarrow> (p', s'))"
| "op_step create (p, s) (CallPut x) = (op_Put x p, s)"

definition op_bound :: "goint \<Rightarrow> 't object_pool \<Rightarrow> bool" where
  "op_bound initialSize p \<longleftrightarrow> op_initialized p \<and>
     (op_maxSize p < 0 \<or> op_Size p \<le> max initialSize (op_maxSize p))"

lemma op_init_loop_result:
  "op_init_loop create k p s = (Inr p', s') \<Longrightarrow>
    op_maxSize p' = op_maxSize p \<and> length (op_objects p') = length (op_objects p) + k"
  by (induction k arbitrary: p s) (auto split: prod.splits sum.splits)

lemma op_NewPool_result:
  "op_NewPool create n m s = Inr (Inr p, s') \<Longrightarrow> op_initialized p \<and> op_maxSize p = m \<and> op_Size p = n"
  by (auto simp: op_NewPool_def op_Size_def Let_def split: if_splits prod.splits sum.splits
      dest!: op_init_loop_result)

lemma op_step_bound: "op_bound n (fst ps) \<Longrightarrow> op_bound n (fst (op_step create ps call))"
  by (cases ps; cases call)
    (auto simp: op_bound_def op_Get_def op_Put_def op_Size_def Let_def split: option.splits prod.splits)

lemma op_run_bound: "op_bound n (fst ps) \<Longrightarrow> op_bound n (fst (foldl (op_step create) ps cs))"
proof (induction cs arbitrary: ps)
  case (Cons c cs)
  then show ?case using op_step_bound [of n ps create c] by simp
qed simp

text \<open>Taking \<open>n\<close> objects one after the other.\<close>

fun op_get_all ::
  "('t, 's) create_fn \<Rightarrow> ctx \<Rightarrow> instant \<Rightarrow> nat \<Rightarrow> 't object_pool \<Rightarrow> 's \<Rightarrow>
    (go_error + 't) list \<times> 't object_pool \<times> 's" where
  "op_get_all create c i 0 p s = ([], p, s)"
| "op_get_all create c i (Suc n) p s =
     (case op_Get create c i p s of
        (r, p', s') \<Rightarrow> (case op_get_all create c i n p' s' of (rs, p'', s'') \<Rightarrow> (r # rs, p'', s'')))"

lemma op_put_all:
  "op_maxSize p < 0 \<or> op_Size p + int (length xs) \<le> op_maxSize p \<Longrightarrow>
    foldl (\<lambda>p x. op_Put x p) p xs = p\<lparr>op_objects := op_objects p @ xs\<rparr>"
  by (induction xs arbitrary: p) (auto simp: op_Put_def op_Size_def)

lemma op_get_last:
  "ctx_err c i = None \<Longrightarrow>
    op_Get create c i (p\<lparr>op_objects := ys @ [x]\<rparr>) s = (Inr x, p\<lparr>op_objects := ys\<rparr>, s)"
  by (simp add: op_Get_def Let_def)

lemma op_get_all_rev:
  "ctx_err c i = None \<Longrightarrow>
    op_get_all create c i (length xs) (p\<lparr>op_objects := ys @ xs\<rparr>) s =
      (map Inr (rev xs), p\<lparr>op_objects := ys\<rparr>, s)"
proof (induction xs rule: rev_induct)
  case (snoc x xs)
  then show ?case using op_get_last [of c i create "ys @ xs" x p s] by simp
qed simp

section \<open>Properties\<close>

text \<open>A pool with a limit never holds more idle objects than its limit or the number it was created
  with, whatever sequence of \<open>Get\<close> and \<open>Put\<close> it goes through.\<close>

lemma object_pool_bounded:
  assumes "op_NewPool create n m s = Inr (Inr p, s')" and "0 \<le> m"
  shows "op_Size (fst (foldl (op_step create) (p, s') cs)) \<le> max n m"
proof -
  have "op_bound n p" using op_NewPool_result [OF assms(1)] by (simp add: op_bound_def)
  then have "op_bound n (fst (foldl (op_step create) (p, s') cs))" by (intro op_run_bound) simp
  moreover have "op_maxSize (fst (foldl (op_step create) ps cs)) = op_maxSize (fst ps)" for ps
  proof (induction cs arbitrary: ps)
    case (Cons c cs)
    have "op_maxSize (fst (op_step create ps c)) = op_maxSize (fst ps)"
      by (cases ps; cases c) (auto simp: op_Get_def op_Put_def Let_def split: option.splits prod.splits)
    with Cons show ?case by simp
  qed simp
  ultimately show ?thesis using assms(2) op_NewPool_result [OF assms(1)] by (auto simp: op_bound_def)
qed

definition counting :: "(nat, nat) create_fn" where
  "counting s = (Inr s, Suc s)"

text \<open>The maximum size does not limit the objects in use: on a pool with a positive limit \<open>Get\<close> never
  reports exhaustion, it creates another object whenever no idle one is left, while an object that was
  put back is the next one that \<open>Get\<close> hands out.\<close>

lemma object_pool_get:
  assumes "op_initialized p" and "0 < op_maxSize p" and "ctx_err c i = None"
  shows "(op_objects p = [] \<longrightarrow> op_Get create c i p s = (fst (create s), p, snd (create s))) \<and>
    (op_Size p < op_maxSize p \<longrightarrow> op_Get create c i (op_Put x p) s = (Inr x, p, s))"
  using assms by (auto simp: op_Get_def op_Put_def op_Size_def Let_def split: prod.splits)

text \<open>C38: Objects that are put back into a pool with room for them come out again in reverse order, without
  any being created, and leave the pool as it was.\<close>

theorem object_pool_roundtrip:
  assumes "ctx_err c i = None" and "op_maxSize p < 0 \<or> op_Size p + int (length xs) \<le> op_maxSize p"
  shows "op_get_all create c i (length xs) (foldl (\<lambda>p x. op_Put x p) p xs) s = (map Inr (rev xs), p, s)"
  using op_get_all_rev [OF assms(1), where create = create and xs = xs and p = p and ys = "op_objects p" and s = s]
    op_put_all [OF assms(2)] by simp

theorem object_pool_roundtrip_witness:
  "op_get_all counting background 0 2 (foldl (\<lambda>p x. op_Put x p)
      \<lparr>op_objects = [3], op_initialized = True, op_maxSize = 3\<rparr> [5, 6]) 9
    = ([Inr 6, Inr 5], \<lparr>op_objects = [3], op_initialized = True, op_maxSize = 3\<rparr>, 9)"
  using object_pool_roundtrip [of background 0 "\<lparr>op_objects = [3], op_initialized = True, op_maxSize = 3\<rparr>"
      "[5, 6]" counting 9]
  by (simp add: op_Size_def numeral_2_eq_2)

end
