(* ===== verification/Lemmings.thy ===== *)
theory Lemmings
  imports Manager_System Middleware Factory
begin

text \<open>
  The facade of the library (\<open>lemmings.go\<close>), its wrappers around the packages, and what a program
  that is written against it gets: the worker factory, the pool that it feeds, and the manager's
  goroutines put together.
\<close>

section \<open>The wrappers\<close>

definition Version :: string where
  "Version = ''0.1.1''"

definition lem_NewManager :: "config \<Rightarrow> instant \<Rightarrow> panic_val + (go_error + ('o, 'cb, 'w) manager)" where
  "lem_NewManager cfg i = NewManager cfg i"

definition lem_DefaultConfig :: config where
  "lem_DefaultConfig = DefaultConfig"

definition lem_NewWorkerFactory :: "(goint \<Rightarrow> ('t, 's) create_fn) option \<Rightarrow> ('t, 's) worker_factory" where
  "lem_NewWorkerFactory fn = NewWorkerFactory fn"

definition CreateSimpleWorker ::
  "goint \<Rightarrow> ('o, 'cb) result chan option \<Rightarrow> world \<Rightarrow> ('o, 'cb) simple_worker" where
  "CreateSimpleWorker n resultChan w = NewSimpleWorker n None resultChan 0 w"

definition lem_NewFunctionTask ::
  "string \<Rightarrow> 'o task_func option \<Rightarrow> instant \<Rightarrow> ('o, 'cb) function_task" where
  "lem_NewFunctionTask tid fn i = NewFunctionTask tid fn i"

definition CreateMiddlewareChain :: "('o, 'cb) middleware list \<Rightarrow> ('o, 'cb) middleware" where
  "CreateMiddlewareChain ms = Chain ms"

definition lem_WrapTask :: "('o, 'cb) task \<Rightarrow> ('o, 'cb) middleware \<Rightarrow> ('o, 'cb) task" where
  "lem_WrapTask t m = WrapTask t m"

definition GetMemoryUsagePercent :: "rt_mem \<Rightarrow> float64" where
  "GetMemoryUsagePercent ms = GetSimpleMemUsagePercent ms"

lemmas facade_defs =
  lem_NewManager_def lem_DefaultConfig_def lem_NewWorkerFactory_def CreateSimpleWorker_def
  lem_NewFunctionTask_def CreateMiddlewareChain_def lem_WrapTask_def GetMemoryUsagePercent_def

section \<open>From a factory to a pool\<close>

text \<open>The pool calls \<open>CreateWithID\<close> of a factory of simple workers; the creation functions here keep no
  state of their own.\<close>

definition factory_env ::
  "(('o, 'cb) simple_worker, unit) worker_factory \<Rightarrow> ((goint \<times> ('o, 'cb) simple_worker) list \<Rightarrow> nat) \<Rightarrow>
    ('o, 'cb) simple_worker pool_env" where
  "factory_env f pick = simple_env (\<lambda>n. fst (CreateWithID f n ())) pick"

text \<open>The factories of the README and of \<open>CreateSimpleWorker\<close>: workers without a task channel.\<close>

definition readme_factory :: "world \<Rightarrow> (('o, 'cb) simple_worker, unit) worker_factory" where
  "readme_factory w = lem_NewWorkerFactory (Some (\<lambda>n s. (Inr (NewSimpleWorker n None None 3 w), s)))"

definition facade_factory ::
  "('o, 'cb) result chan option \<Rightarrow> world \<Rightarrow> (('o, 'cb) simple_worker, unit) worker_factory" where
  "facade_factory results w = lem_NewWorkerFactory (Some (\<lambda>n s. (Inr (CreateSimpleWorker n results w), s)))"

lemmas factory_env_defs =
  factory_env_def readme_factory_def facade_factory_def facade_defs NewWorkerFactory_def CreateWithID_def
  simple_env_def

text \<open>Workers of these factories have no task channel and have called nothing, as long as they run.\<close>

definition idle_worker :: "world \<Rightarrow> ('o, 'cb) simple_worker \<Rightarrow> bool" where
  "idle_worker w x \<longleftrightarrow> sw_running x \<and> sw_taskCh x = None \<and> calls (x_world (sw_exec x)) = calls w"

interpretation readme_life: worker_lifecycle "factory_env (readme_factory w) pick" "idle_worker w" for w pick
  by unfold_locales
    (auto simp: factory_env_defs idle_worker_def sw_Start_def sw_halt_def sw_Stop_def NewSimpleWorker_def)

interpretation facade_life: worker_lifecycle "factory_env (facade_factory results w) pick" "idle_worker w"
  for results w pick
  by unfold_locales
    (auto simp: factory_env_defs idle_worker_def sw_Start_def sw_halt_def sw_Stop_def NewSimpleWorker_def)

lemma readme_factory_total: "factory_total (factory_env (readme_factory w) pick)"
  by (simp add: factory_total_def factory_env_defs)

lemma idle_worker_calls:
  "idle_worker w x \<Longrightarrow> (worker_step c)\<^sup>*\<^sup>* x x' \<Longrightarrow> calls (x_world (sw_exec x')) = calls w"
  using no_channel_worker_idle by (fastforce simp: idle_worker_def)

text \<open>A pool of a new manager is live for any such factory, and stays so.\<close>

lemma new_pool_empty: "NewManager cfg i = Inr (Inr m) \<Longrightarrow> p_workers (m_pool m) = [] \<and> p_stopped (m_pool m) = []"
  by (auto simp: NewManager_def NewPool_def Let_def split: option.splits sum.splits if_splits)

section \<open>Properties\<close>


text \<open>C22: A manager whose worker factory wraps a nil function does not start: \<open>Start\<close> returns the error of
  the factory under the descriptions of the three layers that it passes, the manager stays stopped, and
  no worker is left in the pool.\<close>

theorem nil_factory_start:
  fixes m :: "('o, 'cb, ('o, 'cb) simple_worker) manager"
  assumes "lem_NewManager cfg i = Inr (Inr m)"
  shows "\<exists>e m'. mgr_Start (factory_env (lem_NewWorkerFactory None) pick) m = (Some e, m') \<and>
    error_text e = ''failed to start worker pool: failed to add worker: failed to create worker 1: '' @
      ''worker factory function is nil'' \<and>
    errors_is e (ErrorNew ''worker factory function is nil'') \<and>
    \<not> m_started m' \<and> \<not> m_processing m' \<and> p_workers (m_pool m') = [] \<and> \<not> p_started (m_pool m')"
proof -
  let ?env = "factory_env (lem_NewWorkerFactory None) pick" and ?nil = "ErrorNew ''worker factory function is nil''"
  let ?create = "Errorf (''failed to create worker '' @ show_int 1 @ '': '') ?nil"
  have m: "NewManager cfg i = Inr (Inr m)" using assms by (simp add: facade_defs)
  note parts = NewManager_parts [OF m]
  have "1 \<le> p_size (m_pool m)"
    using NewManager_pool_size [OF m] Validate_workers [OF parts(1)] by simp
  then obtain k where k: "nat (p_size (m_pool m)) = Suc k" by (cases "nat (p_size (m_pool m))") auto
  have "addWorker ?env (m_pool m) = (Some ?create, (m_pool m)\<lparr>p_nextWorkerID := 1\<rparr>)"
    using parts by (simp add: addWorker_def factory_env_defs wrap32_id Let_def)
  then have "mgr_Start ?env m = (Some (Errorf ''failed to start worker pool: ''
      (Errorf ''failed to add worker: '' ?create)),
      m\<lparr>m_pool := stopAllWorkers ?env ((m_pool m)\<lparr>p_nextWorkerID := 1\<rparr>)\<rparr>)"
    using parts k by (simp add: mgr_Start_def pool_Start_def)
  moreover have "show_int 1 = ''1''"
    by (simp add: show_int_def show_nat.simps digit_char_def char_of_def bit_0)
  ultimately show ?thesis using parts by (simp add: stopAllWorkers_def)
qed


theorem nil_factory_start_witness:
  "\<exists>(m :: sample_mgr) e m'. lem_NewManager (sample_cfg 1) 0 = Inr (Inr m) \<and>
    mgr_Start (factory_env (lem_NewWorkerFactory None) (\<lambda>_. 0)) m = (Some e, m') \<and> \<not> m_started m'"
proof -
  obtain m :: sample_mgr where "NewManager (sample_cfg 1) 0 = Inr (Inr m)"
    by (rule sample_manager [of 1]) simp_all
  then have m: "lem_NewManager (sample_cfg 1) 0 = Inr (Inr m)" by (simp add: facade_defs)
  from nil_factory_start [OF m, of "\<lambda>_. 0"] m show ?thesis by blast
qed

end
