(* ===== verification/Wiring.thy ===== *)
theory Wiring
  imports Manager_System Middleware
begin

text \<open>
  Workers on the manager's queues.  The rules of \<open>sys_step\<close> for workers say what a worker does to the two
  queues.  Here the goroutines of \<open>Worker\<close> themselves are composed with the system, every worker holding
  the task queue and the result queue of the manager as its channels, and the composition refines the
  wired system: what is proved about that holds for them.
\<close>

section \<open>The composed system\<close>

text \<open>A worker whose channels are the queues of the manager.\<close>

definition attach ::
  "('o, 'cb, 'w) system \<Rightarrow> ('o, 'cb) simple_worker \<Rightarrow> ('o, 'cb) simple_worker" where
  "attach s w = w\<lparr>sw_taskCh := Some (m_taskQueue (y_mgr s)),
     sw_exec := (sw_exec w)\<lparr>x_results := Some (m_resultQueue (y_mgr s))\<rparr>\<rparr>"

text \<open>The system after a worker has left the queues as \<open>tq\<close> and \<open>rq\<close>: what is missing from the task queue
  was taken, and a task that was taken without a new result has lost its result.\<close>

definition absorb ::
  "('o, 'cb) task chan \<Rightarrow> ('o, 'cb) result chan \<Rightarrow> ('o, 'cb, 'w) system \<Rightarrow> ('o, 'cb, 'w) system" where
  "absorb tq rq s =
     (let old = chan_buf (m_taskQueue (y_mgr s));
          taken = take (length old - length (chan_buf tq)) old
      in s\<lparr>y_mgr := (y_mgr s)\<lparr>m_taskQueue := tq, m_resultQueue := rq\<rparr>,
           y_taken := y_taken s @ taken,
           y_lost := y_lost s +
             (length taken - (length (chan_buf rq) - length (chan_buf (m_resultQueue (y_mgr s)))))\<rparr>)"

text \<open>After a worker whose task panicked: the task that it took is never finished, and the process ends.\<close>

definition absorb_panic ::
  "('o, 'cb) task chan \<Rightarrow> panic_val \<Rightarrow> ('o, 'cb, 'w) system \<Rightarrow> ('o, 'cb, 'w) system" where
  "absorb_panic tq v s =
     (let old = chan_buf (m_taskQueue (y_mgr s));
          taken = take (length old - length (chan_buf tq)) old
      in s\<lparr>y_mgr := (y_mgr s)\<lparr>m_taskQueue := tq\<rparr>, y_taken := y_taken s @ taken,
           y_flight := y_flight s @ taken, y_panic := Some v\<rparr>)"

text \<open>The manager's side moves as it does without workers; a worker makes a step of its own loop.\<close>

inductive wired_step ::
  "ctx \<Rightarrow> 'w pool_env \<Rightarrow> ('o, 'cb, 'w) system \<times> ('o, 'cb) simple_worker list \<Rightarrow>
    ('o, 'cb, 'w) system \<times> ('o, 'cb) simple_worker list \<Rightarrow> bool"
  for c :: ctx and env :: "'w pool_env" where
  manager: "sys_step False env s s' \<Longrightarrow> wired_step c env (s, ws) (s', ws)"
| worker: "y_panic s = None \<Longrightarrow> j < length ws \<Longrightarrow> worker_step c (attach s (ws ! j)) w \<Longrightarrow>
    sw_panic w = None \<Longrightarrow> sw_taskCh w = Some tq \<Longrightarrow> x_results (sw_exec w) = Some rq \<Longrightarrow>
    wired_step c env (s, ws) (absorb tq rq s, ws[j := w])"
| worker_panic: "y_panic s = None \<Longrightarrow> j < length ws \<Longrightarrow> worker_step c (attach s (ws ! j)) w \<Longrightarrow>
    sw_panic (ws ! j) = None \<Longrightarrow> sw_panic w = Some v \<Longrightarrow> sw_taskCh w = Some tq \<Longrightarrow>
    wired_step c env (s, ws) (absorb_panic tq v s, ws[j := w])"

inductive_cases wired_stepE: "wired_step c env (s, ws) (s', ws')"

section \<open>Refinement\<close>

lemma sys_step_wired: "sys_step False env s s' \<Longrightarrow> sys_step wired env s s'"
  by (erule sys_stepE; (simp; fail | hypsubst; rule sys_step.intros; assumption))

definition retries_ok :: "('o, 'cb) simple_worker list \<Rightarrow> bool" where
  "retries_ok ws \<longleftrightarrow> (\<forall>w \<in> set ws. w_maxRetries (x_worker (sw_exec w)) < max_int64)"

lemma attach_simps [simp]:
  "sw_taskCh (attach s w) = Some (m_taskQueue (y_mgr s))"
  "x_results (sw_exec (attach s w)) = Some (m_resultQueue (y_mgr s))"
  "x_worker (sw_exec (attach s w)) = x_worker (sw_exec w)" "sw_panic (attach s w) = sw_panic w"
  "x_world (sw_exec (attach s w)) = x_world (sw_exec w)" "sw_running (attach s w) = sw_running w"
  by (simp_all add: attach_def)

lemma absorb_same: "absorb (m_taskQueue (y_mgr s)) (m_resultQueue (y_mgr s)) s = s"
  by (simp add: absorb_def Let_def)

text \<open>A worker that takes a task does what the two rules for workers do, one after the other.\<close>

lemma take_finish:
  assumes "y_panic s = None" "y_flight s = []" "try_recv (m_taskQueue (y_mgr s)) = Some (t, tq)"
    and "r_Task r = Some t" "fst (try_send (m_resultQueue (y_mgr s)) r) = rq"
  shows "(sys_step True env)\<^sup>*\<^sup>* s (absorb tq rq s)"
proof -
  let ?s1 = "s\<lparr>y_mgr := (y_mgr s)\<lparr>m_taskQueue := tq\<rparr>, y_flight := y_flight s @ [t], y_taken := y_taken s @ [t]\<rparr>"
  obtain q ok where send: "try_send (m_resultQueue (y_mgr s)) r = (q, ok)" by (metis surj_pair)
  let ?s2 = "?s1\<lparr>y_mgr := (y_mgr ?s1)\<lparr>m_resultQueue := q\<rparr>, y_flight := remove1 t (y_flight ?s1),
    y_lost := (if ok then y_lost ?s1 else Suc (y_lost ?s1))\<rparr>"
  have "sys_step True env s ?s1" by (rule sys_step.take) (use assms in simp_all)
  moreover have "sys_step True env ?s1 ?s2"
    by (rule sys_step.finish [where r = r]) (use assms send in simp_all)
  moreover have "?s2 = absorb tq rq s"
  proof -
    have buf: "chan_buf (m_taskQueue (y_mgr s)) = t # chan_buf tq" using try_recv_Some [OF assms(3)] .
    have "q = rq" using assms(5) send by simp
    moreover have "length (chan_buf q) = length (chan_buf (m_resultQueue (y_mgr s))) + (if ok then 1 else 0)"
      using send by (auto simp: try_send_def split: if_splits)
    ultimately show ?thesis using assms(2) buf by (cases ok) (simp_all add: absorb_def Let_def)
  qed
  ultimately show ?thesis by (metis converse_rtranclp_into_rtranclp r_into_rtranclp)
qed

lemma worker_refines:
  assumes "worker_step c (attach s w0) w" and "y_panic s = None" "y_flight s = []" "sw_panic w = None"
    and "sw_taskCh w = Some tq" "x_results (sw_exec w) = Some rq"
    and "w_maxRetries (x_worker (sw_exec w0)) < max_int64"
    and "\<forall>t \<in> set (chan_buf (m_taskQueue (y_mgr s))). t_max_retries t < max_int64"
  shows "(sys_step True env)\<^sup>*\<^sup>* s (absorb tq rq s) \<and>
    w_maxRetries (x_worker (sw_exec w)) = w_maxRetries (x_worker (sw_exec w0))"
proof -
  have stay: ?thesis if "sw_taskCh w = sw_taskCh (attach s w0)" "x_results (sw_exec w) = x_results (sw_exec (attach s w0))"
    "x_worker (sw_exec w) = x_worker (sw_exec w0)"
    using that assms(5,6) absorb_same [of s] by simp
  from assms(1) show ?thesis
  proof cases
    case (take ch t ch' p x)
    have recv: "try_recv (m_taskQueue (y_mgr s)) = Some (t, tq)" using take(1,3,4) assms(5) by simp
    have run: "ExecuteTask c t (sw_exec (attach s w0)) = (None, x)" using take(1,5) assms(4) by simp
    have "t \<in> set (chan_buf (m_taskQueue (y_mgr s)))" using try_recv_Some [OF recv] by simp
    then have "effective_retries t (x_worker (sw_exec (attach s w0))) < max_int64"
      using assms(7,8) by (simp add: effective_retries_def)
    from ExecuteTask_sends [OF run this] obtain r where r: "r_Task r = Some t"
      "x_results x = map_option (\<lambda>ch. fst (try_send ch r)) (x_results (sw_exec (attach s w0)))"
      "w_maxRetries (x_worker x) = w_maxRetries (x_worker (sw_exec w0))" by auto
    have "fst (try_send (m_resultQueue (y_mgr s)) r) = rq" using r(2) take(1) assms(6) by simp
    from take_finish [OF assms(2,3) recv r(1) this] r(3) take(1) show ?thesis by simp
  qed (rule stay; simp)+
qed

text \<open>A worker whose task panics takes the task and never gives it back.\<close>

lemma worker_panic_takes:
  assumes "worker_step c (attach s w0) w" and "sw_panic w0 = None" "sw_panic w = Some v" "sw_taskCh w = Some tq"
  obtains t where "try_recv (m_taskQueue (y_mgr s)) = Some (t, tq)"
    "fst (ExecuteTask c t (sw_exec (attach s w0))) = Some v"
  using assms by (cases rule: worker_step.cases) auto

lemma panic_refines:
  assumes "y_panic s = None" "y_flight s = []" "try_recv (m_taskQueue (y_mgr s)) = Some (t, tq)"
  shows "(sys_step True env)\<^sup>*\<^sup>* s (absorb_panic tq v s)"
proof -
  let ?s1 = "s\<lparr>y_mgr := (y_mgr s)\<lparr>m_taskQueue := tq\<rparr>, y_flight := y_flight s @ [t], y_taken := y_taken s @ [t]\<rparr>"
  have "sys_step True env s ?s1" by (rule sys_step.take) (use assms in simp_all)
  moreover have "sys_step True env ?s1 (?s1\<lparr>y_panic := Some v\<rparr>)"
    by (rule sys_step.task_panic [where t = t]) (use assms(1) in simp_all)
  moreover have "?s1\<lparr>y_panic := Some v\<rparr> = absorb_panic tq v s"
    using try_recv_Some [OF assms(3)] by (simp add: absorb_panic_def Let_def)
  ultimately show ?thesis by (metis converse_rtranclp_into_rtranclp r_into_rtranclp)
qed

lemma absorb_simps [simp]:
  "y_flight (absorb tq rq s) = y_flight s" "y_sent (absorb tq rq s) = y_sent s" "y_panic (absorb tq rq s) = y_panic s"
  "y_sent (absorb_panic tq v s) = y_sent s" "y_panic (absorb_panic tq v s) = Some v"
  by (simp_all add: absorb_def absorb_panic_def Let_def)

lemma flight_step: "sys_step False env s s' \<Longrightarrow> y_flight s' = y_flight s"
  by (erule sys_stepE) simp_all

lemma panic_step: "sys_step wired env s s' \<Longrightarrow> y_panic s = None"
  by (erule sys_stepE) simp_all

lemma sent_step: "sys_step wired env s s' \<Longrightarrow> set (y_sent s) \<subseteq> set (y_sent s')"
  by (erule sys_stepE) auto

lemma wired_step_sent: "wired_step c env (s, ws) (s', ws') \<Longrightarrow> set (y_sent s) \<subseteq> set (y_sent s')"
  by (erule wired_stepE) (auto dest: sent_step)

text \<open>Until the process ends by a panic, the retry limits are small and no task is half done.\<close>

definition wired_ok :: "('o, 'cb, 'w) system \<times> ('o, 'cb) simple_worker list \<Rightarrow> bool" where
  "wired_ok x \<longleftrightarrow> (y_panic (fst x) = None \<longrightarrow> retries_ok (snd x) \<and> y_flight (fst x) = [])"

text \<open>One step of the composition, for a state that the wired system reaches.\<close>

lemma wired_step_refines:
  assumes "wired_step c env (s, ws) (s', ws')" and "wired_ok (s, ws)" "accounted n k f s"
    and "\<forall>t \<in> set (y_sent s). t_max_retries t < max_int64"
  shows "(sys_step True env)\<^sup>*\<^sup>* s s' \<and> wired_ok (s', ws')"
  using assms(1)
proof cases
  case manager
  have "sys_step True env s s'" using manager(2) by (rule sys_step_wired)
  then show ?thesis using assms(2) flight_step [OF manager(2)] panic_step [OF manager(2)] manager(1)
    by (simp add: wired_ok_def r_into_rtranclp)
next
  case (worker j w tq rq)
  have ok: "retries_ok ws" "y_flight s = []" using assms(2) worker(3) by (simp_all add: wired_ok_def)
  have "set (chan_buf (m_taskQueue (y_mgr s))) \<subseteq> set (y_sent s)" using assms(3) by (auto simp: accounted_def Let_def)
  then have small: "\<forall>t \<in> set (chan_buf (m_taskQueue (y_mgr s))). t_max_retries t < max_int64" using assms(4) by blast
  have retries: "w_maxRetries (x_worker (sw_exec (ws ! j))) < max_int64"
    using ok(1) worker(4) by (simp add: retries_ok_def)
  note ref = worker_refines [OF worker(5) worker(3) ok(2) worker(6,7,8) retries small, of env]
  have "set (ws[j := w]) \<subseteq> insert w (set ws)" by (rule set_update_subset_insert)
  then have "retries_ok ws'" using ref retries ok(1) worker(2) by (auto simp: retries_ok_def)
  then show ?thesis using ref worker(1) ok(2) by (simp add: wired_ok_def)
next
  case (worker_panic j w v tq)
  obtain t where "try_recv (m_taskQueue (y_mgr s)) = Some (t, tq)"
    by (rule worker_panic_takes [OF worker_panic(5-8)])
  moreover have "y_flight s = []" using assms(2) worker_panic(3) by (simp add: wired_ok_def)
  ultimately show ?thesis using panic_refines worker_panic(1,3) by (auto simp: wired_ok_def)
qed

lemma wired_run_refines:
  assumes "NewManager cfg i = Inr (Inr m)" and "retries_ok ws0"
    and "(wired_step c env)\<^sup>*\<^sup>* (new_system m, ws0) (s, ws)" and "\<forall>t \<in> set (y_sent s). t_max_retries t < max_int64"
  shows "(sys_step True env)\<^sup>*\<^sup>* (new_system m) s \<and> wired_ok (s, ws)"
  using assms(3,4)
proof (induction "(s, ws)" arbitrary: s ws rule: rtranclp_induct)
  case base
  then show ?case using assms(2) by (simp add: new_system_def wired_ok_def)
next
  case (step y)
  obtain s1 ws1 where y: "y = (s1, ws1)" by (cases y)
  have step1: "wired_step c env (s1, ws1) (s, ws)" using step.hyps(2) y by simp
  have sent: "\<forall>t \<in> set (y_sent s1). t_max_retries t < max_int64"
    using wired_step_sent [OF step1] step.prems by blast
  from step.hyps(3) [OF y sent] have IH: "(sys_step True env)\<^sup>*\<^sup>* (new_system m) s1" "wired_ok (s1, ws1)"
    by simp_all
  obtain n k f where "accounted n k f s1" using manager_accounted [OF assms(1) IH(1)] by blast
  from wired_step_refines [OF step1 IH(2) this sent] IH(1) show ?case by auto
qed

lemma wired_manager_run:
  "(sys_step False env)\<^sup>*\<^sup>* s s' \<Longrightarrow> (wired_step c env)\<^sup>*\<^sup>* (s, ws) (s', ws)"
proof (induction rule: rtranclp_induct)
  case (step s1 s2)
  then show ?case by (meson rtranclp.rtrancl_into_rtrancl wired_step.manager)
qed simp

text \<open>Tasks that cannot panic on the goroutine of the worker.\<close>

definition calm :: "('o, 'cb) task \<Rightarrow> bool" where
  "calm t \<longleftrightarrow> t_max_retries t < max_int64 \<and>
     (\<forall>c w v w'. t_execute t c w \<noteq> (Panic v, w') \<and> t_execute t c w \<noteq> (Crash v, w'))"

lemma calm_recovered:
  assumes "\<forall>c w v w'. t_execute u c w \<noteq> (Crash v, w')" and "t_max_retries u < max_int64"
  shows "calm (WrapTask u RecoveryMiddleware)"
proof -
  have "t_execute (WrapTask u RecoveryMiddleware) c w \<noteq> (Panic v, w') \<and>
      t_execute (WrapTask u RecoveryMiddleware) c w \<noteq> (Crash v, w')" for c w v w'
    using assms(1) by (cases "t_execute u c w"; cases "fst (t_execute u c w)")
      (auto simp: WrapTask_def RecoveryMiddleware_def)
  then show ?thesis using assms(2) by (simp add: calm_def WrapTask_def)
qed

lemma calm_worker_step:
  assumes "worker_step c (attach s w0) w" "sw_panic w0 = None" "w_maxRetries (x_worker (sw_exec w0)) < max_int64"
    and "\<forall>t \<in> set (chan_buf (m_taskQueue (y_mgr s))). calm t"
  shows "sw_panic w = None"
proof (rule ccontr)
  assume "sw_panic w \<noteq> None"
  then obtain v where v: "sw_panic w = Some v" by blast
  obtain tq where "sw_taskCh w = Some tq" using assms(1) by (cases rule: worker_step.cases) auto
  from worker_panic_takes [OF assms(1,2) v this] obtain t where
    t: "try_recv (m_taskQueue (y_mgr s)) = Some (t, tq)" "fst (ExecuteTask c t (sw_exec (attach s w0))) = Some v" .
  then have "calm t" using assms(4) try_recv_Some [OF t(1)] by simp
  then have "fst (ExecuteTask c t (sw_exec (attach s w0))) = None"
    using assms(3) by (intro ExecuteTask_no_panic) (simp_all add: calm_def effective_retries_def)
  with t(2) show False by simp
qed

text \<open>For the witnesses: one task sent to the queue of a running manager.\<close>

lemma sent_run:
  fixes t :: "(nat, unit) task"
  assumes "t_validate t 0 = None"
  obtains m :: sample_mgr and s where "NewManager (sample_cfg 1) 0 = Inr (Inr m)"
    "(sys_step wired sample_env)\<^sup>*\<^sup>* (new_system m) s" "y_sent s = [t]" "y_panic s = None" "y_flight s = []"
    "m_taskQueue (y_mgr s) = \<lparr>chan_buf = [t], chan_cap = 1\<rparr>"
proof -
  obtain m :: sample_mgr where m: "NewManager (sample_cfg 1) 0 = Inr (Inr m)"
    by (rule sample_manager [of 1]) simp_all
  obtain s1 where s1: "(sys_step wired sample_env)\<^sup>*\<^sup>* (new_system m) s1" "idle (nat (MaxTasksInQueue (sample_cfg 1))) s1"
    "y_uncounted s1 = 0" "y_flight s1 = []" "y_lost s1 = 0" "y_sent s1 = []"
    "m_stats (y_mgr s1) = zero_stats" "chan_buf (m_resultQueue (y_mgr s1)) = []"
    by (rule new_system_starts [OF m sample_factory]) simp_all
  have idle: "idle 1 s1" using s1(2) by simp
  obtain s2 where s2: "(sys_step wired sample_env)\<^sup>*\<^sup>* s1 s2" "y_uncounted s2 = Suc (y_uncounted s1)"
    "y_flight s2 = y_flight s1" "y_sent s2 = y_sent s1 @ [t]" "y_lost s2 = y_lost s1" "y_panic s2 = None"
    "m_taskQueue (y_mgr s2) = \<lparr>chan_buf = [t], chan_cap = 1\<rparr>" "m_stats (y_mgr s2) = m_stats (y_mgr s1)"
    "m_resultQueue (y_mgr s2) = m_resultQueue (y_mgr s1)" "m_started (y_mgr s2)" "m_processing (y_mgr s2)"
    "y_pending s2 = []" by (rule idle_send [OF idle _ assms]) simp_all
  have "(sys_step wired sample_env)\<^sup>*\<^sup>* (new_system m) s2" using s1(1) s2(1) by simp
  from that [OF m this] s1 s2 show thesis by simp
qed

lemma sample_worker_ok: "retries_ok [sample_worker]"
  by (simp add: retries_ok_def sample_worker_def sw_Start_def NewSimpleWorker_def NewBaseWorker_def)

lemma worker_takes:
  assumes "y_panic s = None" "chan_buf (m_taskQueue (y_mgr s)) = t # ts"
    and "ExecuteTask background t (sw_exec (attach s sample_worker)) = (None, x)" "x_results x = Some rq"
  shows "\<exists>w. wired_step background env (s, [sample_worker])
    (absorb ((m_taskQueue (y_mgr s))\<lparr>chan_buf := ts\<rparr>) rq s, [w])"
proof -
  let ?w = "attach s sample_worker" and ?tq = "(m_taskQueue (y_mgr s))\<lparr>chan_buf := ts\<rparr>"
  let ?v = "?w\<lparr>sw_taskCh := Some ?tq, sw_exec := x, sw_panic := None, sw_running := (None = (None :: panic_val option))\<rparr>"
  have recv: "try_recv (m_taskQueue (y_mgr s)) = Some (t, ?tq)" using assms(2) by (simp add: try_recv_def)
  have "worker_step background ?w ?v"
    by (rule worker_step.take [OF _ _ recv assms(3)]) simp_all
  then have "wired_step background env (s, [sample_worker]) (absorb ?tq rq s, [sample_worker][0 := ?v])"
    by (intro wired_step.worker) (use assms in simp_all)
  then show ?thesis by auto
qed

section \<open>The workers can finish the work\<close>

text \<open>What holds while a worker and the result processor empty the queues: the manager's side as in the
  wired system, no task half done, and a worker that runs.\<close>

definition staffed :: "('o, 'cb, 'w) system \<times> ('o, 'cb) simple_worker list \<Rightarrow> bool" where
  "staffed x \<longleftrightarrow> draining (fst x) (fst x) \<and> 0 < chan_cap (m_resultQueue (y_mgr (fst x))) \<and> y_flight (fst x) = [] \<and>
     retries_ok (snd x) \<and> (\<forall>t \<in> set (chan_buf (m_taskQueue (y_mgr (fst x)))). calm t) \<and>
     (\<exists>j < length (snd x). sw_running (snd x ! j))"

text \<open>A running worker takes the first task and leaves its result in the queue when that is empty.\<close>

lemma staffed_take:
  assumes "staffed (s, ws)" "chan_buf (m_resultQueue (y_mgr s)) = []" "chan_buf (m_taskQueue (y_mgr s)) = t # ts"
  obtains s' ws' where "wired_step c env (s, ws) (s', ws')" "staffed (s', ws')" "draining s s'" "load s' < load s"
proof -
  obtain j where j: "j < length ws" "sw_running (ws ! j)" using assms(1) by (auto simp: staffed_def)
  let ?w = "attach s (ws ! j)" and ?tq = "(m_taskQueue (y_mgr s))\<lparr>chan_buf := ts\<rparr>"
  have recv: "try_recv (m_taskQueue (y_mgr s)) = Some (t, ?tq)" using assms(3) by (simp add: try_recv_def)
  have "w_maxRetries (x_worker (sw_exec (ws ! j))) < max_int64" "calm t"
    using assms(1,3) j(1) by (simp_all add: staffed_def retries_ok_def)
  then have small: "effective_retries t (x_worker (sw_exec ?w)) < max_int64"
    by (simp add: calm_def effective_retries_def)
  obtain x where run: "ExecuteTask c t (sw_exec ?w) = (None, x)"
    using ExecuteTask_no_panic [OF _ small, of c] \<open>calm t\<close> by (metis calm_def prod.collapse)
  obtain r where r: "x_results x = map_option (\<lambda>ch. fst (try_send ch r)) (x_results (sw_exec ?w))"
    "w_maxRetries (x_worker x) = w_maxRetries (x_worker (sw_exec (ws ! j)))"
    using ExecuteTask_sends [OF run small] by auto
  let ?rq = "(m_resultQueue (y_mgr s))\<lparr>chan_buf := [r]\<rparr>"
  have rq: "x_results x = Some ?rq"
    using r(1) assms(1,2) by (simp add: staffed_def try_send_def)
  let ?v = "?w\<lparr>sw_taskCh := Some ?tq, sw_exec := x, sw_panic := None, sw_running := True\<rparr>"
  have "worker_step c ?w (?w\<lparr>sw_taskCh := Some ?tq, sw_exec := x, sw_panic := None, sw_running := (None = (None :: panic_val option))\<rparr>)"
    by (rule worker_step.take [OF _ _ recv run]) (use j(2) in simp_all)
  then have "worker_step c ?w ?v" by simp
  then have "wired_step c env (s, ws) (absorb ?tq ?rq s, ws[j := ?v])"
    by (rule wired_step.worker [rotated 2]) (use assms(1) j rq in \<open>simp_all add: staffed_def draining_def\<close>)
  moreover have drains: "draining s (absorb ?tq ?rq s)"
    using assms by (simp add: staffed_def draining_def absorb_def Let_def)
  moreover have "load (absorb ?tq ?rq s) < load s" using assms(2,3) by (simp add: load_def absorb_def Let_def)
  moreover have "retries_ok (ws[j := ?v])"
    using assms(1) r(2) j(1) set_update_subset_insert [of ws j ?v] by (fastforce simp: staffed_def retries_ok_def)
  then have "staffed (absorb ?tq ?rq s, ws[j := ?v])"
    using assms drains j(1) by (auto simp: staffed_def draining_def absorb_def Let_def intro!: exI [of _ j])
  ultimately show thesis by (intro that)
qed

lemma staffed_step:
  assumes "staffed (s, ws)" "0 < load s"
  obtains s' ws' where "wired_step c env (s, ws) (s', ws')" "staffed (s', ws')" "draining s s'" "load s' < load s"
proof (cases "chan_buf (m_resultQueue (y_mgr s))")
  case (Cons r rs)
  have "draining s s" using assms(1) by (simp add: staffed_def)
  from handle_step [OF this Cons] obtain s' where s': "sys_step False env s s'" "draining s s'" "load s' < load s"
    "y_flight s' = y_flight s" "chan_buf (m_taskQueue (y_mgr s')) = chan_buf (m_taskQueue (y_mgr s))" .
  then have "staffed (s', ws)" using assms(1) by (simp add: staffed_def draining_def)
  with s' show thesis by (intro that [of s' ws] wired_step.manager)
next
  case Nil
  with assms obtain t ts where "chan_buf (m_taskQueue (y_mgr s)) = t # ts"
    by (cases "chan_buf (m_taskQueue (y_mgr s))") (auto simp: load_def staffed_def)
  from staffed_take [OF assms(1) Nil this, of c env] show thesis using that .
qed

lemma staffed_drain:
  assumes "staffed (s, ws)"
  shows "\<exists>s' ws'. (wired_step c env)\<^sup>*\<^sup>* (s, ws) (s', ws') \<and> draining s s' \<and> load s' = 0"
  using assms
proof (induction "load s" arbitrary: s ws rule: less_induct)
  case less
  show ?case
  proof (cases "load s = 0")
    case True
    then show ?thesis using less.prems by (auto simp: staffed_def)
  next
    case False
    then obtain s1 ws1 where s1: "wired_step c env (s, ws) (s1, ws1)" "staffed (s1, ws1)" "draining s s1" "load s1 < load s"
      using staffed_step [OF less.prems, of c env] by auto
    from less.hyps [OF s1(4,2)] obtain s' ws' where
      "(wired_step c env)\<^sup>*\<^sup>* (s1, ws1) (s', ws')" "draining s1 s'" "load s' = 0" by blast
    with s1(1) draining_trans [OF s1(3)] show ?thesis by (meson converse_rtranclp_into_rtranclp)
  qed
qed

section \<open>Properties\<close>




text \<open>C20: A task that panics without such a wrapper ends the process: as soon as a worker takes it, with a
  live context, no goroutine of the manager and no worker makes another step, and the tasks behind it
  in the queue are never taken.\<close>

theorem task_panic_ends_process:
  assumes "y_panic s = None" and "j < length ws" and "sw_running (ws ! j)" and "sw_panic (ws ! j) = None"
    and "chan_buf (m_taskQueue (y_mgr s)) = t # ts"
    and "ctx_err c (now (x_world (sw_exec (ws ! j)))) = None"
    and "t_validate t (now (x_world (sw_exec (ws ! j)))) = None"
    and "0 \<le> effective_retries t (x_worker (sw_exec (ws ! j)))"
    and "t_execute t c (x_world (sw_exec (ws ! j))) = (Panic v, w')"
  shows "\<exists>s' ws'. wired_step c env (s, ws) (s', ws') \<and> y_panic s' = Some v \<and> y_flight s' = y_flight s @ [t] \<and>
    chan_buf (m_taskQueue (y_mgr s')) = ts \<and> (\<forall>x. \<not> wired_step c env (s', ws') x)"
proof -
  let ?w = "attach s (ws ! j)" and ?tq = "(m_taskQueue (y_mgr s))\<lparr>chan_buf := ts\<rparr>"
  have recv: "try_recv (m_taskQueue (y_mgr s)) = Some (t, ?tq)" using assms(5) by (simp add: try_recv_def)
  obtain x where run: "ExecuteTask c t (sw_exec ?w) = (Some v, x)"
    using ExecuteTask_panics [of c "sw_exec ?w" t v w'] assms(6-9) by auto
  let ?v = "?w\<lparr>sw_taskCh := Some ?tq, sw_exec := x, sw_panic := Some v, sw_running := (Some v = None)\<rparr>"
  have "worker_step c ?w ?v"
    by (rule worker_step.take [OF _ _ recv run]) (use assms(3) in simp_all)
  then have "wired_step c env (s, ws) (absorb_panic ?tq v s, ws[j := ?v])"
    by (intro wired_step.worker_panic) (use assms in simp_all)
  moreover have "\<not> wired_step c env (absorb_panic ?tq v s, ws') x" for ws' x
    by (cases x) (auto elim!: wired_stepE dest: panic_step)
  ultimately show ?thesis
    using assms(5) by (intro exI [of _ "absorb_panic ?tq v s"] exI [of _ "ws[j := ?v]"])
      (simp add: absorb_panic_def Let_def)
qed

definition guarded_panic :: "(nat, unit) task" where
  "guarded_panic = WrapTask (ft_iface (panicking_task 0)) RecoveryMiddleware"

lemmas panic_defs = panicking_task_def sample_ft_defs ft_iface_def ft_Execute_def simple_Execute_def call_func_def


theorem task_panic_ends_process_witness:
  "\<exists>(s :: (nat, unit, (nat, unit) simple_worker) system) s' ws'.
    wired_step background sample_env (s, [sample_worker]) (s', ws') \<and> y_panic s' = Some (PanicString ''boom'')"
proof -
  let ?t = "ft_iface (panicking_task 0)"
  have "t_validate ?t 0 = None" by (simp add: simple_Validate_def panic_defs)
  then obtain m :: sample_mgr and s where r: "NewManager (sample_cfg 1) 0 = Inr (Inr m)"
    "(sys_step False sample_env)\<^sup>*\<^sup>* (new_system m) s" "y_sent s = [?t]" "y_panic s = None" "y_flight s = []"
    "m_taskQueue (y_mgr s) = \<lparr>chan_buf = [?t], chan_cap = 1\<rparr>" by (rule sent_run)
  obtain w' where "t_execute ?t background sample_world = (Panic (PanicString ''boom''), w')"
    by (simp add: panic_defs)
  then show ?thesis
    using task_panic_ends_process [of s 0 "[sample_worker]" ?t "[]" background "PanicString ''boom''" w' sample_env]
      r(4,6)
    by (fastforce simp: sample_worker_def sw_Start_def NewSimpleWorker_def simple_Validate_def
        effective_retries_def panic_defs)
qed


end
