(* ===== verification/Test_Doubles.thy ===== *)
theory Test_Doubles
  imports Pool
begin

text \<open>
  The test doubles of the library (\<open>internal/testutils\<close>): mock tasks, workers and factories, the
  special-purpose tasks built on them, and the polling helper.  The doubles keep state of their own,
  which their operations return updated.  An output is an integer or a text.
\<close>

datatype mock_val = MockInt goint | MockText string

section \<open>Mock tasks\<close>

record mock_task =
  mt_id :: string
  mt_taskType :: string
  mt_priority :: goint
  mt_maxRetries :: goint
  mt_execFunc :: "mock_val task_func option"
  mt_validateErr :: "go_error option"
  mt_execCount :: goint

definition NewMockTask :: "string \<Rightarrow> mock_val task_func option \<Rightarrow> mock_task" where
  "NewMockTask tid f =
     \<lparr>mt_id = tid, mt_taskType = ''mock'', mt_priority = 0, mt_maxRetries = 1, mt_execFunc = f,
      mt_validateErr = None, mt_execCount = 0\<rparr>"

text \<open>\<open>Execute\<close> counts the call, then calls the function or returns the count.\<close>

definition mock_enter :: "mock_task \<Rightarrow> mock_task" where
  "mock_enter t = t\<lparr>mt_execCount := wrap64 (mt_execCount t + 1)\<rparr>"

definition mock_Execute ::
  "mock_task \<Rightarrow> ctx \<Rightarrow> world \<Rightarrow> (mock_val outcome \<times> world) \<times> mock_task" where
  "mock_Execute t c w =
     (let t' = mock_enter t
      in (case mt_execFunc t' of
            Some f \<Rightarrow> call_func f c w
          | None \<Rightarrow> (Return (Some (MockInt (mt_execCount t'))) None, w), t'))"

definition mock_Validate :: "mock_task \<Rightarrow> go_error option" where
  "mock_Validate t = mt_validateErr t"

definition mock_WithPriority :: "goint \<Rightarrow> mock_task \<Rightarrow> mock_task" where
  "mock_WithPriority p t = t\<lparr>mt_priority := p\<rparr>"

definition mock_WithRetries :: "goint \<Rightarrow> mock_task \<Rightarrow> mock_task" where
  "mock_WithRetries n t = t\<lparr>mt_maxRetries := n\<rparr>"

definition WithValidateError :: "go_error option \<Rightarrow> mock_task \<Rightarrow> mock_task" where
  "WithValidateError e t = t\<lparr>mt_validateErr := e\<rparr>"

definition GetExecutionCount :: "mock_task \<Rightarrow> goint" where
  "GetExecutionCount t = mt_execCount t"

section \<open>Tasks built on mock tasks\<close>

text \<open>The function of each of these tasks closes over the task itself; the record holds what it changes.
  The counter of a \<open>CounterTask\<close> is the integer that its pointer refers to.\<close>

record counter_task =
  ct_mock :: mock_task
  ct_counter :: goint

definition NewCounterTask :: "string \<Rightarrow> goint \<Rightarrow> counter_task" where
  "NewCounterTask tid n = \<lparr>ct_mock = NewMockTask tid None, ct_counter = n\<rparr>"

definition counter_Execute :: "counter_task \<Rightarrow> mock_val outcome \<times> counter_task" where
  "counter_Execute t =
     (let n = wrap64 (ct_counter t + 1)
      in (Return (Some (MockInt n)) None, \<lparr>ct_mock = mock_enter (ct_mock t), ct_counter = n\<rparr>))"

record error_after_task =
  ea_mock :: mock_task
  ea_n :: goint
  ea_execCount :: goint

definition NewErrorAfterNExecutionsTask :: "string \<Rightarrow> goint \<Rightarrow> error_after_task" where
  "NewErrorAfterNExecutionsTask tid n =
     \<lparr>ea_mock = NewMockTask tid None, ea_n = n, ea_execCount = 0\<rparr>"

definition error_after_Execute :: "error_after_task \<Rightarrow> mock_val outcome \<times> error_after_task" where
  "error_after_Execute t =
     (let k = wrap64 (ea_execCount t + 1); t' = t\<lparr>ea_mock := mock_enter (ea_mock t), ea_execCount := k\<rparr>
      in if k > ea_n t then (Return None (Some (ErrorNew ''error after N executions'')), t')
         else (Return (Some (MockInt k)) None, t'))"

record context_check_task =
  cc_mock :: mock_task
  cc_canceled :: bool

definition NewContextCheckTask :: "string \<Rightarrow> context_check_task" where
  "NewContextCheckTask tid = \<lparr>cc_mock = NewMockTask tid None, cc_canceled = False\<rparr>"

definition context_check_Execute ::
  "context_check_task \<Rightarrow> ctx \<Rightarrow> world \<Rightarrow> (mock_val outcome \<times> world) \<times> context_check_task" where
  "context_check_Execute t c w =
     (let t' = t\<lparr>cc_mock := mock_enter (cc_mock t)\<rparr>
      in case select_done c (now w + 100 * millisecond) w of
           (Some e, w') \<Rightarrow> ((Return None (Some e), w'), t'\<lparr>cc_canceled := True\<rparr>)
         | (None, w') \<Rightarrow> ((Return (Some (MockText ''completed'')) None, w'), t'))"

definition WasCanceled :: "context_check_task \<Rightarrow> bool" where
  "WasCanceled t = cc_canceled t"

section \<open>Mock workers\<close>

record ('o, 'cb) mock_worker =
  mw_id :: goint
  mw_available :: bool
  mw_stats :: worker_stats
  mw_tasks :: "('o, 'cb) task list"
  mw_started :: bool
  mw_stopped :: bool
  mw_resultChan :: "('o, 'cb) result chan option"

definition NewMockWorker :: "goint \<Rightarrow> ('o, 'cb) result chan option \<Rightarrow> instant \<Rightarrow> ('o, 'cb) mock_worker" where
  "NewMockWorker n ch zero =
     \<lparr>mw_id = n, mw_available = True,
      mw_stats = \<lparr>TasksProcessed = 0, TasksFailed = 0, TotalDuration = 0, IdleTime = 0, LastTaskTime = zero\<rparr>,
      mw_tasks = [], mw_started = False, mw_stopped = False, mw_resultChan = ch\<rparr>"

definition mock_Start :: "('o, 'cb) mock_worker \<Rightarrow> ('o, 'cb) mock_worker" where
  "mock_Start w = w\<lparr>mw_started := True\<rparr>"

definition mock_Stop :: "('o, 'cb) mock_worker \<Rightarrow> ('o, 'cb) mock_worker" where
  "mock_Stop w = w\<lparr>mw_stopped := True\<rparr>"

definition mock_Available :: "('o, 'cb) mock_worker \<Rightarrow> bool" where
  "mock_Available w = mw_available w"

definition mock_SetAvailable :: "bool \<Rightarrow> ('o, 'cb) mock_worker \<Rightarrow> ('o, 'cb) mock_worker" where
  "mock_SetAvailable a w = w\<lparr>mw_available := a\<rparr>"

definition mock_Stats :: "('o, 'cb) mock_worker \<Rightarrow> worker_stats" where
  "mock_Stats w = mw_stats w"

definition GetTasks :: "('o, 'cb) mock_worker \<Rightarrow> ('o, 'cb) task list" where
  "GetTasks w = mw_tasks w"

definition IsStarted :: "('o, 'cb) mock_worker \<Rightarrow> bool" where
  "IsStarted w = mw_started w"

definition IsStopped :: "('o, 'cb) mock_worker \<Rightarrow> bool" where
  "IsStopped w = mw_stopped w"

text \<open>The send of the result blocks when the channel is full; a panic of the task is not recovered.\<close>

datatype mock_end = MockDone | MockBlocked | MockPanicked panic_val

definition mock_count :: "go_error option \<Rightarrow> worker_stats \<Rightarrow> worker_stats" where
  "mock_count err st =
     (let st1 = (if err \<noteq> None then st\<lparr>TasksFailed := wrap64 (TasksFailed st + 1)\<rparr>
                 else st\<lparr>TasksProcessed := wrap64 (TasksProcessed st + 1)\<rparr>)
      in st1\<lparr>TotalDuration := wrap64 (TotalDuration st1 + millisecond)\<rparr>)"

definition mock_ExecuteTask ::
  "ctx \<Rightarrow> ('o, 'cb) task \<Rightarrow> ('o, 'cb) mock_worker \<times> world \<Rightarrow>
    mock_end \<times> ('o, 'cb) mock_worker \<times> world" where
  "mock_ExecuteTask c t mw =
     (case mw of (m, w) \<Rightarrow>
        let m1 = m\<lparr>mw_tasks := mw_tasks m @ [t]\<rparr>
        in case t_execute t c w of
             (Panic v, w') \<Rightarrow> (MockPanicked v, m1, w')
           | (Crash v, w') \<Rightarrow> (MockPanicked v, m1, w')
           | (Return ov err, w') \<Rightarrow>
               (let r = \<lparr>r_TaskID = t_id t, r_Output = ov, r_Err = err, r_Duration = millisecond,
                         r_Worker = mw_id m1, r_Attempt = 1, r_Task = Some t\<rparr>
                in case mw_resultChan m1 of
                     None \<Rightarrow> (MockDone, m1\<lparr>mw_stats := mock_count err (mw_stats m1)\<rparr>, w')
                   | Some ch \<Rightarrow>
                       (case try_send ch r of
                          (ch', True) \<Rightarrow>
                            (MockDone, m1\<lparr>mw_resultChan := Some ch', mw_stats := mock_count err (mw_stats m1)\<rparr>, w')
                        | (ch', False) \<Rightarrow> (MockBlocked, m1, w'))))"

section \<open>Mock factories\<close>

text \<open>A creation function returns a worker or nil, and an error or nil.\<close>

record 'w mock_factory =
  mf_createFn :: "(goint \<Rightarrow> 'w option \<times> go_error option) option"
  mf_createdWorkers :: "'w list"
  mf_creationError :: "go_error option"
  mf_creationCounter :: goint

definition NewMockFactory :: "(goint \<Rightarrow> 'w option \<times> go_error option) option \<Rightarrow> 'w mock_factory" where
  "NewMockFactory fn =
     \<lparr>mf_createFn = fn, mf_createdWorkers = [], mf_creationError = None, mf_creationCounter = 0\<rparr>"

definition mock_CreateWithID ::
  "instant \<Rightarrow> ('o, 'cb) mock_worker mock_factory \<Rightarrow> goint \<Rightarrow>
    (('o, 'cb) mock_worker option \<times> go_error option) \<times> ('o, 'cb) mock_worker mock_factory" where
  "mock_CreateWithID zero f n =
     (let f1 = f\<lparr>mf_creationCounter := wrap64 (mf_creationCounter f + 1)\<rparr>
      in case mf_creationError f1 of
           Some e \<Rightarrow> ((None, Some e), f1)
         | None \<Rightarrow>
             (let (w, err) = (case mf_createFn f1 of
                 Some fn \<Rightarrow> fn n
               | None \<Rightarrow> (Some (NewMockWorker n (Some \<lparr>chan_buf = [], chan_cap = 10\<rparr>) zero), None))
              in ((w, err),
                  case w of Some x \<Rightarrow> f1\<lparr>mf_createdWorkers := mf_createdWorkers f1 @ [x]\<rparr> | None \<Rightarrow> f1)))"

definition mock_Create ::
  "instant \<Rightarrow> ('o, 'cb) mock_worker mock_factory \<Rightarrow>
    (('o, 'cb) mock_worker option \<times> go_error option) \<times> ('o, 'cb) mock_worker mock_factory" where
  "mock_Create zero f = mock_CreateWithID zero f 0"

definition SetCreationError :: "go_error option \<Rightarrow> 'w mock_factory \<Rightarrow> 'w mock_factory" where
  "SetCreationError e f = f\<lparr>mf_creationError := e\<rparr>"

definition GetCreatedWorkers :: "'w mock_factory \<Rightarrow> 'w list" where
  "GetCreatedWorkers f = mf_createdWorkers f"

definition GetCreationCount :: "'w mock_factory \<Rightarrow> goint" where
  "GetCreationCount f = mf_creationCounter f"

section \<open>Polling\<close>

text \<open>\<open>WaitForCondition\<close> from instant \<open>i\<close>: the condition is evaluated every ten milliseconds until the
  deadline.\<close>

function poll :: "(instant \<Rightarrow> bool) \<Rightarrow> instant \<Rightarrow> instant \<Rightarrow> bool" where
  "poll cond deadline i =
     (if i < deadline then (if cond i then True else poll cond deadline (i + 10 * millisecond)) else False)"
  by pat_completeness auto
termination
  by (relation "measure (\<lambda>(cond, deadline, i). nat (deadline - i))") auto

declare poll.simps [simp del]

definition WaitForCondition :: "(instant \<Rightarrow> bool) \<Rightarrow> duration \<Rightarrow> instant \<Rightarrow> bool" where
  "WaitForCondition cond timeout i = poll cond (i + timeout) i"

section \<open>Facts\<close>

text \<open>Polling succeeds exactly when the condition holds at one of its instants before the deadline.\<close>

lemma poll_iff:
  "poll cond deadline i \<longleftrightarrow> (\<exists>k::nat. i + int k * (10 * millisecond) < deadline \<and> cond (i + int k * (10 * millisecond)))"
proof (induction cond deadline i rule: poll.induct)
  case (1 cond deadline i)
  let ?at = "\<lambda>i k. i + int k * (10 * millisecond)"
  show ?case
  proof (cases "i < deadline \<and> \<not> cond i")
    case True
    have shift: "?at (i + 10 * millisecond) k = ?at i (Suc k)" for k
      by (simp add: algebra_simps)
    have "poll cond deadline i \<longleftrightarrow> poll cond deadline (i + 10 * millisecond)"
      using True by (subst poll.simps) simp
    also have "\<dots> \<longleftrightarrow> (\<exists>k. ?at i (Suc k) < deadline \<and> cond (?at i (Suc k)))"
      using 1 [OF _ _] True unfolding shift by blast
    also have "\<dots> \<longleftrightarrow> (\<exists>k. ?at i k < deadline \<and> cond (?at i k))" (is "_ = (\<exists>k. ?P k)")
    proof
      assume "\<exists>k. ?P k"
      then obtain k where k: "?P k" by blast
      with True obtain j where "k = Suc j" by (cases k) auto
      with k show "\<exists>k. ?P (Suc k)" by blast
    qed blast
    finally show ?thesis .
  next
    case False
    then show ?thesis by (subst poll.simps) (auto intro: exI [of _ 0])
  qed
qed

fun error_after_runs :: "nat \<Rightarrow> error_after_task \<Rightarrow> mock_val outcome list" where
  "error_after_runs 0 t = []"
| "error_after_runs (Suc k) t = (case error_after_Execute t of (r, t') \<Rightarrow> r # error_after_runs k t')"

text \<open>The first \<open>n\<close> executions return 1 to \<open>n\<close>, all later ones the error.\<close>

lemma error_after_runs_from:
  "0 \<le> ea_execCount t \<Longrightarrow> ea_execCount t + int k \<le> max_int64 \<Longrightarrow>
    error_after_runs k t =
      map (\<lambda>j. if ea_execCount t + 1 + int j \<le> ea_n t then Return (Some (MockInt (ea_execCount t + 1 + int j))) None
               else Return None (Some (ErrorNew ''error after N executions''))) [0..<k]"
proof (induction k arbitrary: t)
  case (Suc k)
  obtain r t' where run: "error_after_Execute t = (r, t')" by (metis surj_pair)
  have w: "wrap64 (ea_execCount t + 1) = ea_execCount t + 1" using Suc.prems by (intro wrap64_id) simp_all
  then have t': "ea_execCount t' = ea_execCount t + 1" "ea_n t' = ea_n t"
    and r: "r = (if ea_execCount t + 1 \<le> ea_n t then Return (Some (MockInt (ea_execCount t + 1))) None
      else Return None (Some (ErrorNew ''error after N executions'')))"
    using run by (auto simp: error_after_Execute_def Let_def split: if_splits)
  have shift: "[0..<Suc k] = 0 # map Suc [0..<k]" by (metis map_Suc_upt upt_conv_Cons zero_less_Suc)
  show ?case
    unfolding shift using Suc.IH [of t'] Suc.prems run t' r by (simp add: add.assoc add.commute comp_def)
qed simp

text \<open>A worker that has been started and not stopped runs: the pool treats mock workers as it treats
  simple ones.\<close>

definition mock_running :: "('o, 'cb) mock_worker \<Rightarrow> bool" where
  "mock_running w \<longleftrightarrow> IsStarted w \<and> \<not> IsStopped w"

definition mock_env ::
  "(goint \<Rightarrow> ('o, 'cb) result chan option) \<Rightarrow> instant \<Rightarrow>
    ((goint \<times> ('o, 'cb) mock_worker) list \<Rightarrow> nat) \<Rightarrow> ('o, 'cb) mock_worker pool_env" where
  "mock_env ch zero pick =
     \<lparr>e_create = (\<lambda>n. Inr (NewMockWorker n (ch n) zero)), e_start = (\<lambda>c. mock_Start), e_stop = mock_Stop,
      e_pick = pick\<rparr>"

interpretation mock_life: worker_lifecycle "mock_env ch zero pick" mock_running for ch zero pick
  by unfold_locales
    (auto simp: mock_env_def mock_running_def IsStarted_def IsStopped_def mock_Start_def mock_Stop_def NewMockWorker_def)

text \<open>A mock worker records every task; one that finishes has counted it and, with a result channel,
  has sent one result for it.\<close>

lemma mock_ExecuteTask_done:
  assumes "mock_ExecuteTask c t (m, w) = (MockDone, m', w')"
  shows "mw_tasks m' = mw_tasks m @ [t]"
    and "\<exists>ov err. t_execute t c w = (Return ov err, w') \<and> mw_stats m' = mock_count err (mw_stats m)"
    and "mw_resultChan m = Some ch \<Longrightarrow> length (chan_buf ch) < chan_cap ch \<and>
      (\<exists>ch' r. mw_resultChan m' = Some ch' \<and> chan_buf ch' = chan_buf ch @ [r] \<and> r_TaskID r = t_id t)"
  using assms
  by (auto simp: mock_ExecuteTask_def Let_def try_send_def split: prod.splits outcome.splits option.splits
      bool.splits if_splits)

end
