(* ===== verification/Examples.thy ===== *)
theory Examples
  imports Lemmings
begin

text \<open>
  The two programs of \<open>examples\<close>, statement by statement, on the model of the library.

  A main function runs on one goroutine.  What the manager's own goroutines do before each of its
  steps is an oracle, the argument \<open>bg\<close>, of which the theorems only assume that it consists of rounds
  of their loops (\<open>meanwhile_ok\<close>); each submission, and each reading of the statistics, is one step.
  The lines that a main function prints are collected in order, without those of other goroutines: the
  library's log lines and the line of the signal handler, which is represented by the context that it
  ends; the statistics printer is a definition of its own.
  What the functions of the tasks do is part of the programs, with the time that a computation takes
  and the source of random numbers as arguments.
\<close>

section \<open>What the manager does meanwhile\<close>

type_synonym 'm meanwhile = "nat \<Rightarrow> 'm \<Rightarrow> 'm"

definition meanwhile_ok :: "('o, 'cb, 'w) manager meanwhile \<Rightarrow> bool" where
  "meanwhile_ok bg \<longleftrightarrow> (\<forall>n m. own_step\<^sup>*\<^sup>* m (bg n m))"

text \<open>How a main function ends.\<close>

datatype program_end = Completed | Fatal string | Panicked panic_val | Blocked

text \<open>\<open>x, _ := utils.SecureIntn(n)\<close>: with an error the value is zero.\<close>

definition random_or_zero :: "rand_source \<Rightarrow> goint \<Rightarrow> goint" where
  "random_or_zero src n = (case SecureIntn src n of Inl e \<Rightarrow> 0 | Inr v \<Rightarrow> v)"

text \<open>Random draws of a task function: by the number of the call and of the draw within it.\<close>

type_synonym draws = "nat \<Rightarrow> nat \<Rightarrow> rand_source"

section \<open>The simple example\<close>

definition simple_factory :: "world \<Rightarrow> (('o, 'cb) simple_worker, unit) worker_factory" where
  "simple_factory w = NewWorkerFactory (Some (\<lambda>n s. (Inr (NewSimpleWorker n None None 3 w), s)))"

definition simple_config :: config where
  "simple_config = DefaultConfig\<lparr>InitialWorkers := 5, MaxWorkers := 20, Verbose := True\<rparr>"

definition simple_func :: "draws \<Rightarrow> string \<Rightarrow> string task_func" where
  "simple_func src taskID c i k =
     (let d = wrap64 ((random_or_zero (src k 0) 500 + 100) * millisecond);
          r = (if random_or_zero (src k 1) 10 = 0
               then Return None (Some (ErrorNew ''random task failure''))
               else Return (Some (''Result from task '' @ taskID)) None)
      in (r, nat d))"

definition simple_task_id :: "nat \<Rightarrow> string" where
  "simple_task_id n = ''task-'' @ show_int (int n)"

definition simple_task_of :: "draws \<Rightarrow> nat \<Rightarrow> instant \<Rightarrow> (string, 'cb) function_task" where
  "simple_task_of src n i =
     ft_WithTimeout (2 * second)
       (NewFunctionTask (simple_task_id n) (Some (simple_func src (simple_task_id n))) i)"

text \<open>The loop that submits, one task every 50 milliseconds; \<open>None\<close> when a submission blocks.\<close>

fun simple_submit_loop ::
  "draws \<Rightarrow> (string, 'cb, 'w) manager meanwhile \<Rightarrow> (nat \<Rightarrow> bool) \<Rightarrow> nat list \<Rightarrow> instant \<Rightarrow>
    (string, 'cb, 'w) manager \<Rightarrow> (string list \<times> (string, 'cb, 'w) manager \<times> instant) option" where
  "simple_submit_loop src bg coin [] i m = Some ([], m, i)"
| "simple_submit_loop src bg coin (n # ns) i m =
     (case Submit (ft_iface (simple_task_of src n i)) i (coin n) (bg n m) of
        (None, m') \<Rightarrow> None
      | (Some err, m') \<Rightarrow>
          map_option
            (\<lambda>(out, m'', j).
              ((case err of
                  None \<Rightarrow> []
                | Some e \<Rightarrow> [''Failed to submit task '' @ simple_task_id n @ '': '' @ error_text e]) @ out, m'', j))
            (simple_submit_loop src bg coin ns (i + 50 * millisecond) m'))"

definition simple_stats_line :: "(string, 'cb, 'w) manager \<Rightarrow> string" where
  "simple_stats_line m =
     (let st = mgr_GetStats m
      in ''Stats: Submitted='' @ show_int (ms_TasksSubmitted st) @ '', Completed='' @ show_int (ms_TasksCompleted st) @
         '', Failed='' @ show_int (ms_TasksFailed st) @ '', Workers='' @ show_int (GetWorkerCount m) @
         '', Queue='' @ show_int (GetTaskQueueLength m))"

definition simple_all_done :: "(string, 'cb, 'w) manager \<Rightarrow> bool" where
  "simple_all_done m \<longleftrightarrow>
     (let st = mgr_GetStats m
      in wrap64 (ms_TasksCompleted st + ms_TasksFailed st) \<ge> ms_TasksSubmitted st \<and>
         ms_TasksSubmitted st > 0 \<and> GetTaskQueueLength m = 0)"

text \<open>The loop that watches the progress, a tick every 500 milliseconds, until the deadline of its context;
  the coin decides when a tick and the deadline coincide.\<close>

function simple_monitor ::
  "instant \<Rightarrow> (nat \<Rightarrow> bool) \<Rightarrow> (string, 'cb, 'w) manager meanwhile \<Rightarrow> nat \<Rightarrow> instant \<Rightarrow>
    (string, 'cb, 'w) manager \<Rightarrow> string list \<times> (string, 'cb, 'w) manager \<times> instant" where
  "simple_monitor deadline coin bg k i m =
     (let tick = i + 500 * millisecond
      in if deadline < tick \<or> (deadline = tick \<and> coin k) then ([''Monitoring stopped''], m, deadline)
         else
           let m' = bg k m; line = simple_stats_line m'
           in if simple_all_done m' then ([line, ''All tasks processed!''], m', tick)
              else (case simple_monitor deadline coin bg (Suc k) tick m' of (out, r) \<Rightarrow> (line # out, r)))"
  by pat_completeness auto
termination
  by (relation "measure (\<lambda>(deadline, coin, bg, k, i, m). nat (deadline - i))") auto

declare simple_monitor.simps [simp del]

definition simple_main ::
  "world \<Rightarrow> ((goint \<times> (string, 'cb) simple_worker) list \<Rightarrow> nat) \<Rightarrow> draws \<Rightarrow>
    (string, 'cb, (string, 'cb) simple_worker) manager meanwhile \<Rightarrow> (nat \<Rightarrow> bool) \<Rightarrow> instant \<Rightarrow>
    string list \<times> program_end" where
  "simple_main w pick src bg coin i =
     (let env = factory_env (simple_factory w) pick
      in case NewManager simple_config i of
           Inl v \<Rightarrow> ([], Panicked v)
         | Inr (Inl e) \<Rightarrow> ([], Fatal (''Failed to create manager: '' @ error_text e))
         | Inr (Inr m) \<Rightarrow>
             (case mgr_Start env m of
                (Some e, m1) \<Rightarrow> ([], Fatal (''Failed to start manager: '' @ error_text e))
              | (None, m1) \<Rightarrow>
                  (case monitor_ticker m1 of
                     Some v \<Rightarrow> ([], Panicked v)
                   | None \<Rightarrow>
                       (case simple_submit_loop src (\<lambda>n. bg (Suc n)) coin [0..<100] i
                               (EnableDynamicScaling (bg 0 m1)) of
                          None \<Rightarrow> ([], Blocked)
                        | Some (out1, m2, j) \<Rightarrow>
                            let start = j + 1 * second
                            in case simple_monitor (start + 10 * second) (\<lambda>k. coin (100 + k))
                                      (\<lambda>k. bg (101 + k)) 0 start m2 of
                                 (out2, m3, stop) \<Rightarrow>
                                   (case mgr_Stop env stop m3 of
                                      (Some v, m4) \<Rightarrow> (out1 @ out2, Panicked v)
                                    | (None, m4) \<Rightarrow> (out1 @ out2, Completed))))))"

section \<open>The advanced example\<close>

text \<open>\<open>%.2f\<close>: two decimals, rounded half to even.\<close>

fun fixed2 :: "float64 \<Rightarrow> string" where
  "fixed2 NaN = ''NaN''"
| "fixed2 (Inf s) = (if s then ''+Inf'' else ''-Inf'')"
| "fixed2 (Fin x) =
     (let n = nat (round_even (\<bar>x\<bar> * 100))
      in (if x < 0 then ''-'' else []) @ show_nat (n div 100) @ ''.'' @ fmt_digits 2 (n mod 100))"

record task_result =
  tr_ID :: string
  tr_Value :: goint
  tr_Duration :: duration
  tr_Error :: "go_error option"

text \<open>\<open>CustomWorker\<close> embeds a \<open>*SimpleWorker\<close>, whose methods the pool calls.\<close>

record ('o, 'cb) custom_worker =
  cw_SimpleWorker :: "('o, 'cb) simple_worker"
  cw_processingTime :: int

definition newCustomWorkerFactory :: "world \<Rightarrow> (('o, 'cb) custom_worker, unit) worker_factory" where
  "newCustomWorkerFactory w = NewWorkerFactory (Some (\<lambda>n s.
     (Inr \<lparr>cw_SimpleWorker = NewSimpleWorker n None None 3 w, cw_processingTime = 0\<rparr>, s)))"

definition custom_env ::
  "(('o, 'cb) custom_worker, unit) worker_factory \<Rightarrow> ((goint \<times> ('o, 'cb) custom_worker) list \<Rightarrow> nat) \<Rightarrow>
    ('o, 'cb) custom_worker pool_env" where
  "custom_env f pick =
     \<lparr>e_create = (\<lambda>n. fst (CreateWithID f n ())),
      e_start = (\<lambda>c x. x\<lparr>cw_SimpleWorker := sw_Start (cw_SimpleWorker x)\<rparr>),
      e_stop = (\<lambda>x. x\<lparr>cw_SimpleWorker := sw_halt (cw_SimpleWorker x)\<rparr>), e_pick = pick\<rparr>"

interpretation custom_life: worker_lifecycle "custom_env (newCustomWorkerFactory w) pick"
  "\<lambda>x. sw_running (cw_SimpleWorker x)" for w pick
  by unfold_locales (simp_all add: custom_env_def sw_Start_def sw_halt_def sw_Stop_def)

text \<open>\<open>for j := 0; j < n; j++ { result += f(j) }\<close>, from \<open>j\<close> on.\<close>

fun sum_loop :: "(goint \<Rightarrow> goint) \<Rightarrow> nat \<Rightarrow> goint \<Rightarrow> goint \<Rightarrow> goint" where
  "sum_loop f 0 j result = result"
| "sum_loop f (Suc n) j result = sum_loop f n (j + 1) (wrap64 (result + f j))"

text \<open>The functions of the tasks; \<open>cpu\<close> is the time that the computation takes in each call.\<close>

definition task_value :: "string \<Rightarrow> goint \<Rightarrow> instant \<Rightarrow> nat \<Rightarrow> task_result outcome \<times> nat" where
  "task_value taskID v i d =
     (Return (Some \<lparr>tr_ID = taskID, tr_Value = v, tr_Duration = time_sub (i + int d) i, tr_Error = None\<rparr>) None, d)"

definition math_func :: "(nat \<Rightarrow> nat) \<Rightarrow> goint \<Rightarrow> string \<Rightarrow> task_result task_func" where
  "math_func cpu complexity taskID c i k =
     task_value taskID (sum_loop (\<lambda>j. j mod 10) (nat (wrap64 (complexity * 100000))) 0 0) i (cpu k)"

definition io_func :: "(nat \<Rightarrow> nat) \<Rightarrow> duration \<Rightarrow> string \<Rightarrow> task_result task_func" where
  "io_func cpu ioTime taskID c i k = task_value taskID (sum_loop (\<lambda>j. j) 1000 0 0) i (nat ioTime + cpu k)"

definition cpu_func :: "draws \<Rightarrow> (nat \<Rightarrow> nat) \<Rightarrow> string \<Rightarrow> task_result task_func" where
  "cpu_func src cpu taskID c i k =
     (let complexity = wrap64 (random_or_zero (src k 0) 10 + 1)
      in task_value taskID (sum_loop (\<lambda>j. j mod 10) (nat (wrap64 (complexity * 50000))) 0 0) i (cpu k))"

definition sleep_func :: "draws \<Rightarrow> string \<Rightarrow> task_result task_func" where
  "sleep_func src taskID c i k =
     (let sleepTime = wrap64 (wrap64 (random_or_zero (src k 0) 500 + 10) * millisecond)
      in task_value taskID (sleepTime sdiv millisecond) i (nat sleepTime))"

definition faulty_func :: "draws \<Rightarrow> string \<Rightarrow> task_result task_func" where
  "faulty_func src taskID c i k =
     (if random_or_zero (src k 0) 10 < 3 then (Return None (Some (ErrorNew ''random task failure'')), 0)
      else task_value taskID 42 i (nat (wrap64 (wrap64 (random_or_zero (src k 1) 100 + 10) * millisecond))))"

text \<open>The \<open>switch\<close> of \<open>ProcessMixed\<close>; without a matching case the task stays nil.  \<open>WithRetries\<close> is
  promoted from the embedded task and returns that.\<close>

definition mixed_task ::
  "goint \<Rightarrow> draws \<Rightarrow> (nat \<Rightarrow> nat) \<Rightarrow> string \<Rightarrow> instant \<Rightarrow> (task_result, 'cb) task option" where
  "mixed_task taskType src cpu taskID i =
     (if taskType = 0 then Some (ft_iface (NewFunctionTask taskID (Some (cpu_func src cpu taskID)) i))
      else if taskType = 1 then Some (ft_iface (NewFunctionTask taskID (Some (sleep_func src taskID)) i))
      else if taskType = 2 then Some (simple_iface (snd (ft_promoted (WithRetries 2)
             (NewFunctionTask taskID (Some (faulty_func src taskID)) i))))
      else None)"

section \<open>The task processor\<close>

record ('cb, 'w) processor =
  totalProcessed :: int
  tp_manager :: "(task_result, 'cb, 'w) manager"
  tp_results :: "task_result chan"
  tp_results_closed :: bool

definition adv_config :: config where
  "adv_config = DefaultConfig\<lparr>InitialWorkers := 2, MaxWorkers := 50, MinWorkers := 1, Verbose := True,
     ScaleUpFactor := f_round (6 / 5), ScaleDownFactor := f_round (4 / 5), MonitorInterval := 1 * second\<rparr>"

definition NewTaskProcessor :: "instant \<Rightarrow> panic_val + (go_error + ('cb, 'w) processor)" where
  "NewTaskProcessor i =
     (case NewManager adv_config i of
        Inl v \<Rightarrow> Inl v
      | Inr (Inl e) \<Rightarrow> Inr (Inl (Errorf ''failed to create manager: '' e))
      | Inr (Inr m) \<Rightarrow>
          Inr (Inr \<lparr>totalProcessed = 0, tp_manager = m, tp_results = \<lparr>chan_buf = [], chan_cap = 1000\<rparr>,
            tp_results_closed = False\<rparr>))"

definition tp_Start :: "'w pool_env \<Rightarrow> ('cb, 'w) processor \<Rightarrow> go_error option \<times> ('cb, 'w) processor" where
  "tp_Start env p = (case mgr_Start env (tp_manager p) of (e, m) \<Rightarrow> (e, p\<lparr>tp_manager := m\<rparr>))"

definition tp_Stop ::
  "'w pool_env \<Rightarrow> instant \<Rightarrow> ('cb, 'w) processor \<Rightarrow> panic_val option \<times> ('cb, 'w) processor" where
  "tp_Stop env i p =
     (case mgr_Stop env i (tp_manager p) of
        (Some v, m) \<Rightarrow> (Some v, p\<lparr>tp_manager := m\<rparr>)
      | (None, m) \<Rightarrow>
          if tp_results_closed p
          then (Some (PanicError (ErrorNew ''close of closed channel'')), p\<lparr>tp_manager := m\<rparr>)
          else (None, p\<lparr>tp_manager := m, tp_results_closed := True\<rparr>))"

definition tp_GetStats :: "('cb, 'w) processor \<Rightarrow> manager_stats_view" where
  "tp_GetStats p = mgr_GetStats (tp_manager p)"

definition GetProcessedCount :: "('cb, 'w) processor \<Rightarrow> int" where
  "GetProcessedCount p = totalProcessed p"

text \<open>The three methods that submit share their loop: the first error ends it, and a nil task makes
  \<open>Submit\<close> panic.\<close>

datatype batch_end = BatchDone "go_error option" | BatchBlocked | BatchPanic panic_val

fun submit_each ::
  "(nat \<Rightarrow> (task_result, 'cb) task option) \<Rightarrow> (nat \<Rightarrow> string) \<Rightarrow> (task_result, 'cb, 'w) manager meanwhile \<Rightarrow>
    (nat \<Rightarrow> bool) \<Rightarrow> nat list \<Rightarrow> instant \<Rightarrow> ('cb, 'w) processor \<Rightarrow> batch_end \<times> ('cb, 'w) processor" where
  "submit_each mk name bg coin [] i p = (BatchDone None, p)"
| "submit_each mk name bg coin (n # ns) i p =
     (let m = bg n (tp_manager p); failed = (\<lambda>e. BatchDone (Some (Errorf (''failed to submit task '' @ name n @ '': '') e)))
      in case mk n of
           None \<Rightarrow>
             ((if m_started m
               then BatchPanic (PanicError (ErrorNew ''runtime error: invalid memory address or nil pointer dereference''))
               else failed (ErrorNew ''manager not started'')), p\<lparr>tp_manager := m\<rparr>)
         | Some t \<Rightarrow>
             (case Submit t i (coin n) m of
                (None, m') \<Rightarrow> (BatchBlocked, p\<lparr>tp_manager := m'\<rparr>)
              | (Some (Some e), m') \<Rightarrow> (failed e, p\<lparr>tp_manager := m'\<rparr>)
              | (Some None, m') \<Rightarrow>
                  submit_each mk name bg coin ns i
                    (p\<lparr>tp_manager := m', totalProcessed := wrap64 (totalProcessed p + 1)\<rparr>)))"

definition ProcessMath ::
  "(nat \<Rightarrow> nat) \<Rightarrow> (task_result, 'cb, 'w) manager meanwhile \<Rightarrow> (nat \<Rightarrow> bool) \<Rightarrow> goint \<Rightarrow> goint \<Rightarrow> instant \<Rightarrow>
    ('cb, 'w) processor \<Rightarrow> string list \<times> batch_end \<times> ('cb, 'w) processor" where
  "ProcessMath cpu bg coin num complexity i p =
     (let name = (\<lambda>n. ''math-'' @ show_int (int n));
          mk = (\<lambda>n. Some (ft_iface (NewFunctionTask (name n) (Some (math_func cpu complexity (name n))) i)))
      in ([''Submitting '' @ show_int num @ '' math calculation tasks (complexity: '' @ show_int complexity @ '')''],
          submit_each mk name bg coin [0..<nat num] i p))"

definition ProcessIO ::
  "(nat \<Rightarrow> nat) \<Rightarrow> (task_result, 'cb, 'w) manager meanwhile \<Rightarrow> (nat \<Rightarrow> bool) \<Rightarrow> goint \<Rightarrow> duration \<Rightarrow> instant \<Rightarrow>
    ('cb, 'w) processor \<Rightarrow> string list \<times> batch_end \<times> ('cb, 'w) processor" where
  "ProcessIO cpu bg coin num ioTime i p =
     (let name = (\<lambda>n. ''io-'' @ show_int (int n));
          mk = (\<lambda>n. Some (ft_iface (NewFunctionTask (name n) (Some (io_func cpu ioTime (name n))) i)))
      in ([''Submitting '' @ show_int num @ '' I/O simulation tasks (io time: '' @ duration_string ioTime @ '')''],
          submit_each mk name bg coin [0..<nat num] i p))"

text \<open>\<open>msrc\<close>: the random source of each of the draws that this method makes itself.\<close>

definition ProcessMixed ::
  "(nat \<Rightarrow> rand_source) \<Rightarrow> draws \<Rightarrow> (nat \<Rightarrow> nat) \<Rightarrow> (task_result, 'cb, 'w) manager meanwhile \<Rightarrow> (nat \<Rightarrow> bool) \<Rightarrow>
    goint \<Rightarrow> instant \<Rightarrow> ('cb, 'w) processor \<Rightarrow> string list \<times> batch_end \<times> ('cb, 'w) processor" where
  "ProcessMixed msrc src cpu bg coin num i p =
     (let name = (\<lambda>n. ''mixed-'' @ show_int (int n));
          mk = (\<lambda>n. mixed_task (random_or_zero (msrc n) 3) src cpu (name n) i)
      in ([''Submitting '' @ show_int num @ '' mixed tasks''], submit_each mk name bg coin [0..<nat num] i p))"

section \<open>The main function of the advanced example\<close>

text \<open>The signal handler cancels the context, so that a run is given by the instant of the first signal,
  if there is one.  \<open>stats_printer\<close> is the goroutine that prints every two seconds, for the managers
  that it sees at its ticks.\<close>

definition avg_ms :: "duration \<Rightarrow> string" where
  "avg_ms d = fixed2 (f_div (f_of_int d) (f_of_int millisecond)) @ ''ms''"

definition adv_stats_line :: "(task_result, 'cb, 'w) manager \<Rightarrow> string" where
  "adv_stats_line m =
     (let st = mgr_GetStats m
      in ''Stats: Workers='' @ show_int (GetWorkerCount m) @ '', Queue='' @ show_int (GetTaskQueueLength m) @
         '', Completed='' @ show_int (ms_TasksCompleted st) @ '', Failed='' @ show_int (ms_TasksFailed st) @
         '', Avg Time='' @ avg_ms (ms_AvgProcessTime st))"

fun stats_printer :: "ctx \<Rightarrow> bool \<Rightarrow> instant \<Rightarrow> (task_result, 'cb, 'w) manager list \<Rightarrow> string list" where
  "stats_printer c coin i [] = []"
| "stats_printer c coin i (m # ms) =
     (if waits_until c coin (i + 2 * second)
      then adv_stats_line m # stats_printer c coin (i + 2 * second) ms else [])"

text \<open>\<open>if err := batch; err != nil { log.Printf(...) }\<close>, and then the rest of the function.\<close>

definition and_then ::
  "string \<Rightarrow> string list \<times> batch_end \<times> 'p \<Rightarrow> ('p \<Rightarrow> string list \<times> program_end \<times> 'p) \<Rightarrow>
    string list \<times> program_end \<times> 'p" where
  "and_then prefix r rest =
     (case r of
        (out, BatchDone err, p) \<Rightarrow>
          (case rest p of (out', x) \<Rightarrow>
             (out @ (case err of None \<Rightarrow> [] | Some e \<Rightarrow> [prefix @ error_text e]) @ out', x))
      | (out, BatchBlocked, p) \<Rightarrow> (out, Blocked, p)
      | (out, BatchPanic v, p) \<Rightarrow> (out, Panicked v, p))"

text \<open>A \<open>return\<close> after \<open>out\<close> was printed runs the deferred \<open>Stop\<close>.\<close>

definition adv_return ::
  "'w pool_env \<Rightarrow> instant \<Rightarrow> string list \<Rightarrow> ('cb, 'w) processor \<Rightarrow>
    string list \<times> program_end \<times> ('cb, 'w) processor" where
  "adv_return env i out p =
     (case tp_Stop env i p of
        (Some v, p') \<Rightarrow> (out, Panicked v, p')
      | (None, p') \<Rightarrow> (out, Completed, p'))"

definition adv_all_done :: "('cb, 'w) processor \<Rightarrow> bool" where
  "adv_all_done p \<longleftrightarrow>
     wrap64 (ms_TasksCompleted (tp_GetStats p) + ms_TasksFailed (tp_GetStats p)) \<ge> GetProcessedCount p \<and>
     GetTaskQueueLength (tp_manager p) = 0"

definition final_stats :: "('cb, 'w) processor \<Rightarrow> string list" where
  "final_stats p =
     (let st = tp_GetStats p
      in [''All tasks completed!'',
          ''Final Stats: Workers='' @ show_int (GetWorkerCount (tp_manager p)) @
          '', Submitted='' @ show_int (ms_TasksSubmitted st) @ '', Completed='' @ show_int (ms_TasksCompleted st) @
          '', Failed='' @ show_int (ms_TasksFailed st),
          ''Average Processing Time: '' @ avg_ms (ms_AvgProcessTime st)])"

function adv_wait ::
  "'w pool_env \<Rightarrow> ctx \<Rightarrow> (task_result, 'cb, 'w) manager meanwhile \<Rightarrow> (nat \<Rightarrow> bool) \<Rightarrow> instant \<Rightarrow> nat \<Rightarrow> instant \<Rightarrow>
    ('cb, 'w) processor \<Rightarrow> string list \<times> program_end \<times> ('cb, 'w) processor" where
  "adv_wait env c bg coin deadline k i p =
     (if \<not> i < deadline then adv_return env i [''Timeout waiting for task completion''] p
      else
        let tick = i + 500 * millisecond
        in if \<not> waits_until c (coin k) tick then adv_return env tick [''Processing canceled''] p
           else
             let p' = p\<lparr>tp_manager := bg k (tp_manager p)\<rparr>
             in if adv_all_done p' then adv_return env tick (final_stats p') p'
                else adv_wait env c bg coin deadline (Suc k) tick p')"
  by pat_completeness auto
termination
  by (relation "measure (\<lambda>(env, c, bg, coin, deadline, k, i, p). nat (deadline - i))") auto

declare adv_wait.simps [simp del]

fun adv_batches ::
  "'w pool_env \<Rightarrow> ctx \<Rightarrow> (nat \<Rightarrow> rand_source) \<Rightarrow> draws \<Rightarrow> (nat \<Rightarrow> nat) \<Rightarrow> (task_result, 'cb, 'w) manager meanwhile \<Rightarrow>
    (nat \<Rightarrow> bool) \<Rightarrow> nat \<Rightarrow> nat \<Rightarrow> instant \<Rightarrow> ('cb, 'w) processor \<Rightarrow> string list \<times> program_end \<times> ('cb, 'w) processor" where
  "adv_batches env c msrc src cpu bg coin 0 b i p =
     (case adv_wait env c (\<lambda>k. bg (100 * b + k)) (\<lambda>k. coin (100 * b + k)) (i + 30 * second) 0 i p of
        (out, x) \<Rightarrow> (''All tasks submitted, waiting for completion...'' # out, x))"
| "adv_batches env c msrc src cpu bg coin (Suc r) b i p =
     (if ctx_err c i \<noteq> None then adv_return env i [''Processing canceled''] p
      else and_then ''Error submitting mixed tasks: ''
             (ProcessMixed (\<lambda>n. msrc (100 * b + n)) src cpu (\<lambda>n. bg (100 * b + n)) (\<lambda>n. coin (100 * b + n)) 100 i p)
             (adv_batches env c msrc src cpu bg coin r (Suc b) (i + 500 * millisecond)))"

definition adv_main ::
  "world \<Rightarrow> ((goint \<times> (task_result, 'cb) custom_worker) list \<Rightarrow> nat) \<Rightarrow> ctx \<Rightarrow> (nat \<Rightarrow> rand_source) \<Rightarrow> draws \<Rightarrow>
    (nat \<Rightarrow> nat) \<Rightarrow> (task_result, 'cb, (task_result, 'cb) custom_worker) manager meanwhile \<Rightarrow> (nat \<Rightarrow> bool) \<Rightarrow> instant \<Rightarrow>
    string list \<times> program_end \<times> ('cb, (task_result, 'cb) custom_worker) processor option" where
  "adv_main w pick c msrc src cpu bg coin i =
     (let env = custom_env (newCustomWorkerFactory w) pick; hello = ''Starting advanced lemmings example''
      in case NewTaskProcessor i of
           Inl v \<Rightarrow> ([hello], Panicked v, None)
         | Inr (Inl e) \<Rightarrow> ([hello], Fatal (''Failed to create processor: '' @ error_text e), None)
         | Inr (Inr p) \<Rightarrow>
             (case tp_Start env p of
                (Some e, p1) \<Rightarrow> ([hello], Fatal (''Failed to start processor: '' @ error_text e), Some p1)
              | (None, p1) \<Rightarrow>
                  (case monitor_ticker (tp_manager p1) of
                     Some v \<Rightarrow> ([hello], Panicked v, Some p1)
                   | None \<Rightarrow>
                       (case and_then ''Error submitting math tasks: ''
                               (ProcessMath cpu (\<lambda>n. bg (Suc n)) coin 20 1 i
                                  (p1\<lparr>tp_manager := EnableDynamicScaling (bg 0 (tp_manager p1))\<rparr>))
                               (\<lambda>p2. and_then ''Error submitting IO tasks: ''
                                  (ProcessIO cpu (\<lambda>n. bg (21 + n)) (\<lambda>n. coin (20 + n)) 20 (100 * millisecond) i p2)
                                  (adv_batches env c msrc src cpu (\<lambda>n. bg (41 + n)) (\<lambda>n. coin (40 + n)) 5 0 i)) of
                          (out, e, p3) \<Rightarrow> (hello # out, e, Some p3)))))"

section \<open>A manager that nobody serves\<close>

text \<open>
  What is true of the manager of both programs after \<open>n\<close> submissions: they are in the queue and
  counted, and nothing else has happened.  The manager's own goroutines keep this, and so does a
  submission, which the queue has room for.
\<close>

definition unserved :: "nat \<Rightarrow> goint \<Rightarrow> nat \<Rightarrow> ('o, 'cb, 'w) manager \<Rightarrow> bool" where
  "unserved cap workers n m \<longleftrightarrow> m_started m \<and> \<not> m_closed m \<and>
     m_stats m = zero_stats\<lparr>tasksSubmitted := int n, tasksInProgress := int n\<rparr> \<and>
     length (chan_buf (m_taskQueue m)) = n \<and> chan_cap (m_taskQueue m) = cap \<and>
     chan_buf (m_resultQueue m) = [] \<and> GetWorkerCount m = workers"

lemma unserved_own_step: "own_step m m' \<Longrightarrow> unserved cap wk n m \<Longrightarrow> unserved cap wk n m'"
  by (auto simp: own_step_def unserved_def try_recv_def monitor_tick_def GetWorkerCount_def
      elim!: processResults.cases monitorResources.cases)

lemma unserved_meanwhile:
  assumes "meanwhile_ok bg" "unserved cap wk n m"
  shows "unserved cap wk n (bg k m)"
proof -
  have "own_step\<^sup>*\<^sup>* m (bg k m)" using assms(1) by (simp add: meanwhile_ok_def)
  then show ?thesis by (induction rule: rtranclp_induct) (auto intro: unserved_own_step assms(2))
qed

lemma unserved_enable: "unserved cap wk n m \<Longrightarrow> unserved cap wk n (EnableDynamicScaling m)"
  by (simp add: unserved_def EnableDynamicScaling_def GetWorkerCount_def)

lemma unserved_submit:
  assumes "unserved cap wk n m" "n < cap" "t_validate t i = None" "n < 2147483647"
  obtains m' where "Submit t i coin m = (Some None, m')" "unserved cap wk (Suc n) m'"
proof -
  let ?m = "count_submission (enqueue t m)"
  have "Submit t i coin m = (Some None, ?m)"
    using assms by (simp add: unserved_def Submit_def SubmitWithTimeout_def submit_check_def submit_select_def Let_def)
  moreover have "wrap64 (int n + 1) = int (Suc n)" "wrap32 (int n + 1) = int (Suc n)"
    using assms(4) by (simp_all add: wrap64_id wrap32_id)
  then have "unserved cap wk (Suc n) ?m"
    using assms(1,2)
    by (simp add: unserved_def count_submission_def enqueue_def try_send_def zero_stats_def GetWorkerCount_def Let_def)
  ultimately show thesis by (rule that)
qed

lemma unserved_start:
  assumes "NewManager cfg i = Inr (Inr m)" "factory_total env" "InitialWorkers cfg \<le> 2147483647"
  obtains m1 where "mgr_Start env m = (None, m1)"
    "unserved (nat (MaxTasksInQueue cfg)) (InitialWorkers cfg) 0 m1" "m_config m1 = cfg"
proof -
  obtain m1 where m1: "mgr_Start env m = (None, m1)" "m_started m1" "\<not> m_closed m1" "m_processing m1"
    "m_stats m1 = zero_stats" "m_taskQueue m1 = m_taskQueue m" "m_resultQueue m1 = m_resultQueue m"
    "m_config m1 = cfg" by (rule NewManager_starts [OF assms(1,2)])
  have "GetWorkerCount m1 = InitialWorkers cfg"
    using mgr_Start_workers(2) [OF assms(1) m1(1) assms(2,3)] .
  with m1 NewManager_parts(5,6) [OF assms(1)]
  have "unserved (nat (MaxTasksInQueue cfg)) (InitialWorkers cfg) 0 m1"
    by (simp add: unserved_def zero_stats_def)
  with m1 show thesis using that by blast
qed

lemma unserved_stop:
  "unserved cap wk n m \<Longrightarrow> \<exists>m'. mgr_Stop env i m = (None, m')"
  by (simp add: unserved_def mgr_Stop_def)

section \<open>What the simple example prints\<close>

lemma simple_env_total: "factory_total (factory_env (simple_factory w) pick)"
  by (simp add: factory_total_def factory_env_defs simple_factory_def)

lemma simple_task_valid: "t_validate (ft_iface (simple_task_of src n i)) j = None"
  by (simp add: ft_iface_def simple_task_of_def simple_Validate_def simple_task_id_def builder_defs)

lemma simple_submit_loop_unserved:
  "meanwhile_ok bg \<Longrightarrow> unserved cap wk n m \<Longrightarrow> n + length ns \<le> cap \<Longrightarrow> n + length ns < 2147483647 \<Longrightarrow>
    \<exists>m'. simple_submit_loop src bg coin ns i m = Some ([], m', i + int (length ns) * (50 * millisecond)) \<and>
      unserved cap wk (n + length ns) m'"
proof (induction ns arbitrary: n i m)
  case (Cons k ns)
  let ?t = "ft_iface (simple_task_of src k i)"
  have "unserved cap wk n (bg k m)" using Cons.prems by (simp add: unserved_meanwhile)
  then obtain m1 where m1: "Submit ?t i (coin k) (bg k m) = (Some None, m1)" "unserved cap wk (Suc n) m1"
    by (rule unserved_submit [OF _ _ simple_task_valid]) (use Cons.prems in simp_all)
  from Cons.IH [OF Cons.prems(1) m1(2), of "i + 50 * millisecond"] Cons.prems(3,4) obtain m' where
    "simple_submit_loop src bg coin ns (i + 50 * millisecond) m1 =
      Some ([], m', i + 50 * millisecond + int (length ns) * (50 * millisecond))"
    "unserved cap wk (Suc n + length ns) m'" by auto
  with m1 show ?case by (intro exI [of _ m']) (simp add: algebra_simps)
qed auto

lemma unserved_stats:
  assumes "unserved cap wk n m"
  shows "ms_TasksSubmitted (mgr_GetStats m) = int n" "ms_TasksCompleted (mgr_GetStats m) = 0"
    "ms_TasksFailed (mgr_GetStats m) = 0" "ms_AvgProcessTime (mgr_GetStats m) = 0"
    "GetWorkerCount m = wk" "GetTaskQueueLength m = int n"
  using assms by (simp_all add: unserved_def mgr_GetStats_def zero_stats_def GetTaskQueueLength_def Let_def)

definition unserved_line :: "goint \<Rightarrow> nat \<Rightarrow> string" where
  "unserved_line wk n = ''Stats: Submitted='' @ show_int (int n) @ '', Completed=0, Failed=0, Workers='' @
     show_int wk @ '', Queue='' @ show_int (int n)"

lemma show_small:
  "show_int 0 = ''0''" "show_int 2 = ''2''" "show_int 5 = ''5''" "show_int 100 = ''100''"
  by (simp_all add: show_int_def show_nat.simps digit_char_def char_of_def bit_0)

lemma unserved_simple:
  assumes "unserved cap wk n m"
  shows "simple_stats_line m = unserved_line wk n" "0 < n \<Longrightarrow> \<not> simple_all_done m"
  by (simp_all add: simple_stats_line_def simple_all_done_def unserved_line_def unserved_stats [OF assms]
      show_small wrap64_id Let_def)

lemma simple_monitor_unserved:
  assumes "meanwhile_ok bg" "0 < n"
  shows "unserved cap wk n m \<Longrightarrow> deadline = i + (1 + int r) * (500 * millisecond) \<Longrightarrow>
    \<exists>m' stop. simple_monitor deadline coin bg k i m =
      (replicate (if coin (k + r) then r else Suc r) (unserved_line wk n) @ [''Monitoring stopped''], m', stop) \<and>
      unserved cap wk n m'"
proof (induction r arbitrary: k i m)
  case 0
  note m1 = unserved_meanwhile [OF assms(1) 0(1), of k]
  have "simple_monitor deadline coin bg (Suc k) deadline (bg k m) = ([''Monitoring stopped''], bg k m, deadline)"
    by (simp add: simple_monitor.simps)
  then show ?case
    using 0 m1 unserved_simple [OF m1] assms(2)
    by (subst simple_monitor.simps) (simp add: Let_def)
next
  case (Suc r)
  note m1 = unserved_meanwhile [OF assms(1) Suc.prems(1), of k]
  have "deadline = i + 500 * millisecond + (1 + int r) * (500 * millisecond)"
    using Suc.prems(2) by (simp add: algebra_simps)
  from Suc.IH [OF m1 this, of "Suc k"] obtain m' stop where
    "simple_monitor deadline coin bg (Suc k) (i + 500 * millisecond) (bg k m) =
      (replicate (if coin (Suc k + r) then r else Suc r) (unserved_line wk n) @ [''Monitoring stopped''], m', stop)"
    "unserved cap wk n m'" by blast
  then show ?case
    using Suc.prems(2) unserved_simple [OF m1] assms(2)
    by (subst simple_monitor.simps) (simp add: Let_def)
qed

text \<open>C19: The whole simple example, whatever its manager's goroutines do meanwhile: it submits its hundred
  tasks, prints nineteen or twenty times, depending on whether the last tick or the deadline comes first,
  that all of them wait and none is completed, stops at its deadline, and ends; it never reports that all
  tasks were processed.\<close>

theorem simple_example_output:
  fixes pick :: "(goint \<times> (string, 'cb) simple_worker) list \<Rightarrow> nat"
  assumes "meanwhile_ok bg"
  shows "simple_main w pick src bg coin i =
    (replicate (if coin 119 then 19 else 20)
       ''Stats: Submitted=100, Completed=0, Failed=0, Workers=5, Queue=100'' @ [''Monitoring stopped''], Completed)"
proof -
  let ?env = "factory_env (simple_factory w) pick"
  have cfg: "MaxTasksInQueue simple_config = 1000" "InitialWorkers simple_config = 5" "Validate simple_config = None"
    "MonitorInterval simple_config = 5 * second"
    by (simp_all add: simple_config_def DefaultConfig_def validate_defs)
  obtain m :: "(string, 'cb, (string, 'cb) simple_worker) manager" where
    m: "NewManager simple_config i = Inr (Inr m)"
    using cfg(1,3) by (auto simp: NewManager_def make_chan_def NewPool_def NewResourceController_def simple_config_def
        DefaultConfig_def Let_def)
  obtain m1 where m1: "mgr_Start ?env m = (None, m1)" "unserved 1000 5 0 m1" "m_config m1 = simple_config"
    using unserved_start [OF m simple_env_total] cfg(1,2) by auto
  have "unserved 1000 5 0 (EnableDynamicScaling (bg 0 m1))"
    by (rule unserved_enable [OF unserved_meanwhile [OF assms m1(2)]])
  moreover have bg: "meanwhile_ok (\<lambda>n. bg (Suc n))" "meanwhile_ok (\<lambda>n. bg (101 + n))"
    using assms by (simp_all add: meanwhile_ok_def)
  ultimately obtain m2 where m2:
    "simple_submit_loop src (\<lambda>n. bg (Suc n)) coin [0..<100] i (EnableDynamicScaling (bg 0 m1)) =
      Some ([], m2, i + 5 * second)" "unserved 1000 5 100 m2"
    using simple_submit_loop_unserved [OF bg(1), of 1000 5 0 _ "[0..<100]" src coin i] by fastforce
  let ?start = "i + 5 * second + 1 * second"
  have "?start + 10 * second = ?start + (1 + int 19) * (500 * millisecond)" by simp
  from simple_monitor_unserved [OF bg(2) _ m2(2) this, of "\<lambda>k. coin (100 + k)" 0] obtain m3 stop where
    m3: "simple_monitor (?start + 10 * second) (\<lambda>k. coin (100 + k)) (\<lambda>k. bg (101 + k)) 0 ?start m2 =
      (replicate (if coin 119 then 19 else 20) (unserved_line 5 100) @ [''Monitoring stopped''], m3, stop)"
    "unserved 1000 5 100 m3" by auto
  obtain m4 where "mgr_Stop ?env stop m3 = (None, m4)" using unserved_stop [OF m3(2)] by blast
  moreover have "monitor_ticker m1 = None" using m1(3) cfg(4) by (simp add: monitor_ticker_def)
  moreover have "unserved_line 5 100 = ''Stats: Submitted=100, Completed=0, Failed=0, Workers=5, Queue=100''"
    by (simp add: unserved_line_def show_small)
  ultimately show ?thesis
    using m m1(1) m2(1) m3(1) by (simp add: simple_main_def Let_def del: upt_rec_numeral)
qed

section \<open>What the advanced example prints\<close>

lemma fmt_digits_numeral:
  "fmt_digits (numeral k) v = fmt_digits (pred_numeral k) (v div 10) @ [digit_char (v mod 10)]"
  unfolding numeral_eq_Suc [of k] by (rule fmt_digits.simps)

lemma show_small2: "show_int 1 = ''1''" "show_int 20 = ''20''" "duration_string 100000000 = ''100ms''"
proof -
  have d: "digit_char 0 = CHR ''0''" "digit_char 1 = CHR ''1''" by (simp_all add: digit_char_def char_of_def bit_0)
  have "fmt_digits 6 100000000 = ''000000''" by (simp add: fmt_digits_numeral d)
  then show "duration_string 100000000 = ''100ms''"
    by (simp add: duration_string_def fmt_scaled_def fmt_frac_def show_nat.simps digit_char_def char_of_def bit_0)
qed (simp_all add: show_int_def show_nat.simps digit_char_def char_of_def bit_0)

lemma example_factors:
  "f_round (6 / 5) = Fin (5404319552844595 / 4503599627370496)"
  "f_round (4 / 5) = Fin (3602879701896397 / 4503599627370496)"
proof -
  have "rexp (6 / 5) = 0" "rexp (4 / 5) = - 1" by (rule rexp_unique; simp)+
  moreover have "\<lfloor>27021597764222976 / 5 :: rat\<rfloor> = 5404319552844595" "\<lfloor>36028797018963968 / 5 :: rat\<rfloor> = 7205759403792793"
    by (rule floor_unique; simp)+
  ultimately show "f_round (6 / 5) = Fin (5404319552844595 / 4503599627370496)"
    "f_round (4 / 5) = Fin (3602879701896397 / 4503599627370496)"
    by (simp_all add: f_round_def rnd_def grid_exp_def round_even_def power_int_def power_divide Let_def)
qed

lemma custom_env_total: "factory_total (custom_env (newCustomWorkerFactory w) pick)"
  by (simp add: factory_total_def custom_env_def newCustomWorkerFactory_def NewWorkerFactory_def CreateWithID_def)

definition served :: "nat \<Rightarrow> ('cb, 'w) processor \<Rightarrow> bool" where
  "served n p \<longleftrightarrow> unserved 1000 2 n (tp_manager p) \<and> totalProcessed p = int n \<and> \<not> tp_results_closed p"

definition ended :: "nat \<Rightarrow> ('cb, 'w) processor \<Rightarrow> bool" where
  "ended n p \<longleftrightarrow> GetProcessedCount p = int n \<and> ms_TasksSubmitted (tp_GetStats p) = int n \<and>
     ms_TasksCompleted (tp_GetStats p) = 0 \<and> ms_TasksFailed (tp_GetStats p) = 0"

definition always_valid :: "('o, 'cb) task option \<Rightarrow> bool" where
  "always_valid x \<longleftrightarrow> (case x of None \<Rightarrow> False | Some t \<Rightarrow> \<forall>j. t_validate t j = None)"

lemma always_valid_function: "tid \<noteq> [] \<Longrightarrow> always_valid (Some (ft_iface (NewFunctionTask tid (Some f) i)))"
  by (simp add: always_valid_def ft_iface_def simple_Validate_def NewFunctionTask_def)

lemma always_valid_mixed:
  assumes "0 \<le> kind" "kind < 3" "tid \<noteq> []"
  shows "always_valid (mixed_task kind src cpu tid i)"
proof -
  have "kind = 0 \<or> kind = 1 \<or> kind = 2" using assms by linarith
  moreover have "always_valid (mixed_task 2 src cpu tid i)"
    using assms(3) by (simp add: mixed_task_def always_valid_def simple_iface_def simple_Validate_def builder_defs Let_def)
  ultimately show ?thesis using always_valid_function [OF assms(3)] by (auto simp: mixed_task_def)
qed

lemma random_or_zero_range:
  assumes "\<forall>v. rand_Int src n = Inr v \<longrightarrow> 0 \<le> v \<and> v < n" "0 < n" "n \<le> 2 ^ 31 - 1"
  shows "0 \<le> random_or_zero src n \<and> random_or_zero src n < n"
  using assms by (auto simp: random_or_zero_def SecureIntn_def split: sum.splits)

lemma submit_each_served:
  "meanwhile_ok bg \<Longrightarrow> served n p \<Longrightarrow> n + length ns \<le> 1000 \<Longrightarrow> \<forall>k \<in> set ns. always_valid (mk k) \<Longrightarrow>
    \<exists>p'. submit_each mk name bg coin ns i p = (BatchDone None, p') \<and> served (n + length ns) p'"
proof (induction ns arbitrary: n p)
  case (Cons k ns)
  obtain t where t: "mk k = Some t" "t_validate t i = None"
    using Cons.prems(4) by (cases "mk k") (auto simp: always_valid_def)
  have "unserved 1000 2 n (bg k (tp_manager p))"
    using Cons.prems by (simp add: served_def unserved_meanwhile)
  then obtain m' where m': "Submit t i (coin k) (bg k (tp_manager p)) = (Some None, m')" "unserved 1000 2 (Suc n) m'"
    by (rule unserved_submit [OF _ _ t(2)]) (use Cons.prems(3) in simp_all)
  let ?p = "p\<lparr>tp_manager := m', totalProcessed := wrap64 (totalProcessed p + 1)\<rparr>"
  have "served (Suc n) ?p" using m'(2) Cons.prems(2,3) by (simp add: served_def wrap64_id)
  from Cons.IH [OF Cons.prems(1) this] Cons.prems(3,4) t m'(1) show ?case by (simp add: Let_def)
qed simp

lemma adv_return_served:
  assumes "served n p"
  shows "\<exists>p'. adv_return env i out p = (out, Completed, p') \<and> ended n p'"
proof -
  obtain m' where m': "mgr_Stop env i (tp_manager p) = (None, m')"
    using assms unserved_stop [of 1000 2 n "tp_manager p" env i] by (auto simp: served_def)
  moreover have "m_stats m' = m_stats (tp_manager p)" using mgr_Stop_frame [OF m'] by simp
  ultimately show ?thesis
    using assms unserved_stats [of 1000 2 n "tp_manager p"]
    by (simp add: adv_return_def tp_Stop_def served_def ended_def GetProcessedCount_def tp_GetStats_def mgr_GetStats_def Let_def)
qed

lemma adv_wait_served:
  assumes "meanwhile_ok bg" "0 < n"
  shows "served n p \<Longrightarrow> deadline = i + (1 + int r) * (500 * millisecond) \<Longrightarrow>
    \<exists>p'. adv_wait env c bg coin deadline k i p =
      ([if waits_until c (coin (k + r)) deadline then ''Timeout waiting for task completion''
        else ''Processing canceled''], Completed, p') \<and> ended n p'"
proof (induction r arbitrary: k i p)
  case 0
  let ?p = "p\<lparr>tp_manager := bg k (tp_manager p)\<rparr>"
  have p: "served n ?p" using 0(1) unserved_meanwhile [OF assms(1)] by (simp add: served_def)
  then have "\<not> adv_all_done ?p"
    using assms(2) unserved_stats(6) by (fastforce simp: adv_all_done_def served_def)
  moreover have "adv_wait env c bg coin deadline (Suc k) deadline ?p =
      adv_return env deadline [''Timeout waiting for task completion''] ?p"
    by (simp add: adv_wait.simps)
  ultimately show ?case
    using adv_return_served [OF p] adv_return_served [OF 0(1)] 0(2) by (subst adv_wait.simps) (simp add: Let_def)
next
  case (Suc r)
  let ?p = "p\<lparr>tp_manager := bg k (tp_manager p)\<rparr>" and ?tick = "i + 500 * millisecond"
  have p: "served n ?p" using Suc.prems(1) unserved_meanwhile [OF assms(1)] by (simp add: served_def)
  then have undone: "\<not> adv_all_done ?p"
    using assms(2) unserved_stats(6) by (fastforce simp: adv_all_done_def served_def)
  have d: "deadline = ?tick + (1 + int r) * (500 * millisecond)" "?tick < deadline"
    using Suc.prems(2) by (simp_all add: algebra_simps)
  have early: "waits_until c b deadline \<Longrightarrow> waits_until c b' ?tick" for b b'
    using d(2) by (auto simp: waits_until_def split: option.splits)
  show ?case
  proof (cases "waits_until c (coin k) ?tick")
    case True
    then have "adv_wait env c bg coin deadline k i p = adv_wait env c bg coin deadline (Suc k) ?tick ?p"
      using d(2) undone by (subst adv_wait.simps) (simp add: Let_def)
    with Suc.IH [OF p d(1), of "Suc k"] show ?thesis by simp
  next
    case False
    then have "adv_wait env c bg coin deadline k i p = adv_return env ?tick [''Processing canceled''] p"
      using d(2) by (subst adv_wait.simps) (simp add: Let_def)
    with False early adv_return_served [OF Suc.prems(1)] show ?thesis by auto
  qed
qed

text \<open>How the part after the first two batches ends: cancelled before one of the batches of mixed tasks, or
  while it waits, or at the deadline.\<close>

definition batches_end :: "ctx \<Rightarrow> bool \<Rightarrow> nat \<Rightarrow> nat \<Rightarrow> instant \<Rightarrow> string list \<Rightarrow> bool" where
  "batches_end c coin r b i out \<longleftrightarrow>
     b < r \<and> ctx_err c (i + int b * (500 * millisecond)) \<noteq> None \<and> out = [''Processing canceled''] \<or>
     b = r \<and> out = [''All tasks submitted, waiting for completion...'',
       if waits_until c coin (i + int r * (500 * millisecond) + 30 * second)
       then ''Timeout waiting for task completion'' else ''Processing canceled'']"

lemma adv_batches_served:
  assumes "meanwhile_ok bg" "\<forall>k v. rand_Int (msrc k) 3 = Inr v \<longrightarrow> 0 \<le> v \<and> v < 3" "0 < n"
  shows "served n p \<Longrightarrow> n + 100 * r \<le> 1000 \<Longrightarrow> 0 < n \<Longrightarrow>
    \<exists>b' out p'. adv_batches env c msrc src cpu bg coin r b i p =
      (replicate b' ''Submitting 100 mixed tasks'' @ out, Completed, p') \<and> ended (n + 100 * b') p' \<and>
      batches_end c (coin (100 * (b + r) + 59)) r b' i out"
proof (induction r arbitrary: n b i p)
  case 0
  have bg: "meanwhile_ok (\<lambda>k. bg (100 * b + k))" using assms(1) by (simp add: meanwhile_ok_def)
  have "i + 30 * second = i + (1 + int 59) * (500 * millisecond)" by simp
  from adv_wait_served [OF bg 0(3,1) this, of env c "\<lambda>k. coin (100 * b + k)" 0]
  show ?case by (fastforce simp: batches_end_def)
next
  case (Suc r)
  show ?case
  proof (cases "ctx_err c i")
    case None
    let ?bg = "\<lambda>n. bg (100 * b + n)" and ?coin = "\<lambda>n. coin (100 * b + n)" and ?msrc = "\<lambda>n. msrc (100 * b + n)"
    let ?mk = "\<lambda>n. mixed_task (random_or_zero (?msrc n) 3) src cpu (''mixed-'' @ show_int (int n)) i"
    have bg: "meanwhile_ok ?bg" using assms(1) by (simp add: meanwhile_ok_def)
    have "always_valid (?mk k)" for k
      using random_or_zero_range [of "?msrc k" 3] assms(2) by (intro always_valid_mixed) auto
    then obtain p1 where p1: "submit_each ?mk (\<lambda>n. ''mixed-'' @ show_int (int n)) ?bg ?coin [0..<100] i p = (BatchDone None, p1)"
      "served (n + 100) p1"
      using submit_each_served [OF bg Suc.prems(1), of "[0..<100]" ?mk] Suc.prems(2) by fastforce
    have "(n + 100) + 100 * r \<le> 1000" "0 < n + 100" using Suc.prems(2) by simp_all
    from Suc.IH [OF p1(2) this, of "Suc b" "i + 500 * millisecond"] obtain b' out p' where
      rest: "adv_batches env c msrc src cpu bg coin r (Suc b) (i + 500 * millisecond) p1 =
        (replicate b' ''Submitting 100 mixed tasks'' @ out, Completed, p')" "ended (n + 100 + 100 * b') p'"
      "batches_end c (coin (100 * (Suc b + r) + 59)) r b' (i + 500 * millisecond) out" by blast
    have shift: "i + 500 * millisecond + int k * (500 * millisecond) = i + int (Suc k) * (500 * millisecond)" for k
      by (simp add: algebra_simps)
    have "batches_end c (coin (100 * (b + Suc r) + 59)) (Suc r) (Suc b') i out"
      using rest(3) unfolding batches_end_def shift by simp
    moreover have "ended (n + 100 * Suc b') p'" using rest(2) by (simp add: add.assoc)
    moreover have "adv_batches env c msrc src cpu bg coin (Suc r) b i p =
        (replicate (Suc b') ''Submitting 100 mixed tasks'' @ out, Completed, p')"
      using None p1(1) rest(1) by (simp add: ProcessMixed_def and_then_def show_small Let_def del: upt_rec_numeral)
    ultimately show ?thesis by blast
  next
    case (Some e)
    then show ?thesis using adv_return_served [OF Suc.prems(1), of env i "[''Processing canceled'']"]
      by (intro exI [of _ 0]) (fastforce simp: batches_end_def)
  qed
qed

text \<open>The manager of the program starts, and the first two batches fit into its queue.\<close>

lemma adv_start:
  fixes bg :: "(task_result, 'cb, (task_result, 'cb) custom_worker) manager meanwhile"
  assumes "meanwhile_ok bg"
  obtains p p1 where "NewTaskProcessor i = Inr (Inr p)" "tp_Start (custom_env (newCustomWorkerFactory w) pick) p = (None, p1)"
    "monitor_ticker (tp_manager p1) = None"
    "served 0 (p1\<lparr>tp_manager := EnableDynamicScaling (bg 0 (tp_manager p1))\<rparr>)"
proof -
  let ?env = "custom_env (newCustomWorkerFactory w) pick"
  have cfg: "MaxTasksInQueue adv_config = 1000" "InitialWorkers adv_config = 2" "Validate adv_config = None"
    "MonitorInterval adv_config = 1 * second"
    by (simp_all add: adv_config_def DefaultConfig_def validate_defs example_factors)
  obtain m :: "(task_result, 'cb, (task_result, 'cb) custom_worker) manager" where
    m: "NewManager adv_config i = Inr (Inr m)"
    using cfg(1,3) by (auto simp: NewManager_def make_chan_def NewPool_def NewResourceController_def adv_config_def
        DefaultConfig_def Let_def)
  obtain m1 where m1: "mgr_Start ?env m = (None, m1)" "unserved 1000 2 0 m1" "m_config m1 = adv_config"
    using unserved_start [OF m custom_env_total] cfg(1,2) by auto
  let ?p = "\<lambda>m. \<lparr>totalProcessed = 0, tp_manager = m, tp_results = \<lparr>chan_buf = [], chan_cap = 1000\<rparr>,
    tp_results_closed = False\<rparr>"
  have "unserved 1000 2 0 (EnableDynamicScaling (bg 0 m1))"
    by (rule unserved_enable [OF unserved_meanwhile [OF assms m1(2)]])
  then show thesis
    using m m1(1,3) cfg(4)
    by (intro that [of "?p m" "?p m1"]) (simp_all add: NewTaskProcessor_def tp_Start_def monitor_ticker_def served_def)
qed

lemma ProcessMath_served:
  fixes p :: "('cb, 'w) processor"
  assumes "meanwhile_ok bg" "served n p" "n + 20 \<le> 1000"
  obtains p' where "ProcessMath cpu bg coin 20 1 i p =
    ([''Submitting 20 math calculation tasks (complexity: 1)''], BatchDone None, p')" "served (n + 20) p'"
proof -
  let ?name = "\<lambda>n. ''math-'' @ show_int (int n)"
  let ?mk = "\<lambda>n. Some (ft_iface (NewFunctionTask (?name n) (Some (math_func cpu 1 (?name n))) i)) :: (task_result, 'cb) task option"
  have "\<forall>k \<in> set [0..<20]. always_valid (?mk k)" by (simp add: always_valid_function del: upt_rec_numeral)
  from submit_each_served [OF assms(1,2) _ this, of ?name coin i] assms(3) obtain p' where
    "submit_each ?mk ?name bg coin [0..<20] i p = (BatchDone None, p')" "served (n + 20) p'"
    by (auto simp del: upt_rec_numeral)
  then show thesis by (intro that) (simp_all add: ProcessMath_def show_small2 Let_def del: upt_rec_numeral)
qed

lemma ProcessIO_served:
  fixes p :: "('cb, 'w) processor"
  assumes "meanwhile_ok bg" "served n p" "n + 20 \<le> 1000"
  obtains p' where "ProcessIO cpu bg coin 20 (100 * millisecond) i p =
    ([''Submitting 20 I/O simulation tasks (io time: 100ms)''], BatchDone None, p')" "served (n + 20) p'"
proof -
  let ?name = "\<lambda>n. ''io-'' @ show_int (int n)"
  let ?mk = "\<lambda>n. Some (ft_iface (NewFunctionTask (?name n) (Some (io_func cpu (100 * millisecond) (?name n))) i)) :: (task_result, 'cb) task option"
  have "\<forall>k \<in> set [0..<20]. always_valid (?mk k)" by (simp add: always_valid_function del: upt_rec_numeral)
  from submit_each_served [OF assms(1,2) _ this, of ?name coin i] assms(3) obtain p' where
    "submit_each ?mk ?name bg coin [0..<20] i p = (BatchDone None, p')" "served (n + 20) p'"
    by (auto simp del: upt_rec_numeral)
  then show thesis by (intro that) (simp_all add: ProcessIO_def show_small2 Let_def del: upt_rec_numeral)
qed


text \<open>The goroutine that prints the statistics prints, at every tick before the signal, that nothing was
  completed and nothing failed.\<close>

lemma stats_printer_unserved:
  assumes "\<forall>m \<in> set ms. \<exists>n. unserved 1000 2 n m" and "line \<in> set (stats_printer c coin i ms)"
  shows "\<exists>n. line = ''Stats: Workers=2, Queue='' @ show_int (int n) @ '', Completed=0, Failed=0, Avg Time=0.00ms''"
proof -
  have zero: "avg_ms 0 = ''0.00ms''"
    by (simp add: avg_ms_def f_of_int_exact fmt_digits_numeral show_nat.simps digit_char_def char_of_def bit_0
        round_even_def f_round_def)
  have "adv_stats_line m = ''Stats: Workers=2, Queue='' @ show_int (int n) @ '', Completed=0, Failed=0, Avg Time=0.00ms''"
    if "unserved 1000 2 n m" for m :: "(task_result, 'a, 'b) manager" and n
    using unserved_stats [OF that] zero by (simp add: adv_stats_line_def show_small Let_def)
  with assms show ?thesis
    by (induction ms arbitrary: i) (auto split: if_splits)
qed

section \<open>The programs as runs of the system\<close>

text \<open>What the two loops do to the manager is a run of the system of its goroutines.\<close>

lemma meanwhile_sys:
  assumes "meanwhile_ok bg" "y_panic s = None"
  shows "(sys_step wired env)\<^sup>*\<^sup>* s (s\<lparr>y_mgr := bg k (y_mgr s)\<rparr>)"
  using assms by (intro own_steps_sys) (simp_all add: meanwhile_ok_def)

lemma meanwhile_submit_sys:
  assumes "meanwhile_ok bg" "y_panic s = None" "Submit t i coin (bg k (y_mgr s)) = (r, m')"
  shows "\<exists>s'. (sys_step wired env)\<^sup>*\<^sup>* s s' \<and> y_mgr s' = m' \<and> y_panic s' = None"
proof -
  let ?s = "s\<lparr>y_mgr := bg k (y_mgr s)\<rparr>"
  have "\<exists>s'. (sys_step wired env)\<^sup>*\<^sup>* ?s s' \<and> y_mgr s' = m' \<and> y_panic s' = None"
    using assms(2,3) by (intro SubmitWithTimeout_sys [of t 0 i coin ?s r]) (simp_all add: Submit_def)
  with meanwhile_sys [OF assms(1,2), of wired env k] show ?thesis by (rule sys_run_then)
qed

lemma simple_submit_loop_run:
  "simple_submit_loop src bg coin ns i (y_mgr s) = Some (out, m', j) \<Longrightarrow> meanwhile_ok bg \<Longrightarrow> y_panic s = None \<Longrightarrow>
    \<exists>s'. (sys_step wired env)\<^sup>*\<^sup>* s s' \<and> y_mgr s' = m' \<and> y_panic s' = None"
proof (induction ns arbitrary: i s out)
  case (Cons n ns)
  obtain r m1 where sub: "Submit (ft_iface (simple_task_of src n i)) i (coin n) (bg n (y_mgr s)) = (r, m1)" by fastforce
  from meanwhile_submit_sys [OF Cons.prems(2,3) sub] obtain s1 where
    s1: "(sys_step wired env)\<^sup>*\<^sup>* s s1" "y_mgr s1 = m1" "y_panic s1 = None" by blast
  obtain out1 where "simple_submit_loop src bg coin ns (i + 50 * millisecond) (y_mgr s1) = Some (out1, m', j)"
    using Cons.prems(1) sub s1(2) by (auto split: option.splits)
  from Cons.IH [OF this Cons.prems(2) s1(3)] show ?case by (rule sys_run_then [OF s1(1)])
qed auto

lemma submit_each_run:
  "submit_each mk name bg coin ns i p = (r, p') \<Longrightarrow> tp_manager p = y_mgr s \<Longrightarrow> meanwhile_ok bg \<Longrightarrow> y_panic s = None \<Longrightarrow>
    \<exists>s'. (sys_step wired env)\<^sup>*\<^sup>* s s' \<and> y_mgr s' = tp_manager p' \<and> y_panic s' = None"
proof (induction ns arbitrary: s p)
  case (Cons n ns)
  show ?case
  proof (cases "mk n")
    case None
    then have "tp_manager p' = bg n (y_mgr s)" using Cons.prems(1,2) by (auto simp: Let_def split: if_splits)
    with meanwhile_sys [OF Cons.prems(3,4), of wired env n] Cons.prems(4) show ?thesis by fastforce
  next
    case (Some t)
    obtain r1 m1 where sub: "Submit t i (coin n) (bg n (y_mgr s)) = (r1, m1)" by fastforce
    from meanwhile_submit_sys [OF Cons.prems(3,4) sub] obtain s1 where
      s1: "(sys_step wired env)\<^sup>*\<^sup>* s s1" "y_mgr s1 = m1" "y_panic s1 = None" by blast
    show ?thesis
    proof (cases "r1 = Some None")
      case True
      let ?p = "p\<lparr>tp_manager := m1, totalProcessed := wrap64 (totalProcessed p + 1)\<rparr>"
      have "submit_each mk name bg coin ns i ?p = (r, p')" using Cons.prems(1,2) Some sub True by (simp add: Let_def)
      then have "\<exists>s'. (sys_step wired env)\<^sup>*\<^sup>* s1 s' \<and> y_mgr s' = tp_manager p' \<and> y_panic s' = None"
        by (rule Cons.IH) (use s1 Cons.prems(3) in simp_all)
      then show ?thesis by (rule sys_run_then [OF s1(1)])
    next
      case False
      then have "tp_manager p' = m1" using Cons.prems(1,2) Some sub by (auto simp: Let_def split: option.splits)
      with s1 show ?thesis by auto
    qed
  qed
qed auto
section \<open>What the tasks compute\<close>

lemma sum_loop_sum:
  "in64 result \<Longrightarrow> sum_loop f n j result = wrap64 (result + (\<Sum>k<n. f (j + int k)))"
proof (induction n arbitrary: j result)
  case (Suc n)
  have "sum_loop f (Suc n) j result = wrap64 (wrap64 (result + f j) + (\<Sum>k<n. f (j + 1 + int k)))"
    using Suc.IH [of "wrap64 (result + f j)" "j + 1"] by simp
  also have "\<dots> = wrap64 (result + f j + (\<Sum>k<n. f (j + 1 + int k)))"
    using wrap64_add_right [of "\<Sum>k<n. f (j + 1 + int k)" "result + f j"] by (simp add: add.commute)
  also have "f j + (\<Sum>k<n. f (j + 1 + int k)) = (\<Sum>k<Suc n. f (j + int k))"
    by (subst sum.lessThan_Suc_shift) (simp add: add.assoc)
  then have "result + f j + (\<Sum>k<n. f (j + 1 + int k)) = result + (\<Sum>k<Suc n. f (j + int k))" by linarith
  finally show ?case .
qed (simp add: wrap64_in64)

lemma sum_digits: "(\<Sum>k<10 * n. int k mod 10) = 45 * int n"
proof (induction n)
  case (Suc n)
  have "x \<in> {..<10 * n} \<union> (\<lambda>k. 10 * n + k) ` {..<10}" if "x < 10 * Suc n" for x
    using that by (cases "x < 10 * n") (auto intro: image_eqI [of _ _ "x - 10 * n"])
  then have eq: "{..<10 * Suc n} = {..<10 * n} \<union> (\<lambda>k. 10 * n + k) ` {..<10}" by auto
  have "(\<Sum>k<10 * Suc n. int k mod 10) = (\<Sum>k<10 * n. int k mod 10) + (\<Sum>k<10. int (10 * n + k) mod 10)"
    unfolding eq by (subst sum.union_disjoint) (auto simp: sum.reindex)
  moreover have "(\<Sum>k<10. int (10 * n + k) mod 10) = 45"
    by (simp add: lessThan_nat_numeral lessThan_Suc)
  ultimately show ?case using Suc by simp
qed simp

lemma sum_numbers: "(\<Sum>k<n. int k) * 2 = int n * (int n - 1)"
  by (induction n) (simp_all add: algebra_simps)

lemma math_loop_value:
  assumes "0 \<le> n" "450000 * n \<le> max_int64"
  shows "sum_loop (\<lambda>j. j mod 10) (nat (wrap64 (n * 100000))) 0 0 = 450000 * n"
proof -
  have w: "wrap64 (n * 100000) = n * 100000" using assms by (intro wrap64_id) linarith+
  have "nat (n * 100000) = 10 * nat (n * 10000)" using assms(1) by (simp add: nat_mult_distrib)
  then have "sum_loop (\<lambda>j. j mod 10) (nat (n * 100000)) 0 0 = wrap64 (45 * int (nat (n * 10000)))"
    using sum_loop_sum [of 0 "\<lambda>j. j mod 10" "nat (n * 100000)" 0] sum_digits [of "nat (n * 10000)"]
    by (simp add: in64_def)
  then show ?thesis using assms w by (simp add: wrap64_id)
qed

lemma io_loop_value: "sum_loop (\<lambda>j. j) 1000 0 0 = 499500"
proof -
  have "(\<Sum>k<1000. int k) = 499500" using sum_numbers [of 1000] by simp
  then show ?thesis using sum_loop_sum [of 0 "\<lambda>j. j" 1000 0] by (simp add: in64_def wrap64_id)
qed

lemma io_func_value:
  assumes "0 \<le> ioTime" "in64 (ioTime + int (cpu k))"
  shows "io_func cpu ioTime tid c i k = (Return (Some \<lparr>tr_ID = tid, tr_Value = 499500,
    tr_Duration = ioTime + int (cpu k), tr_Error = None\<rparr>) None, nat ioTime + cpu k)"
  using assms by (simp add: io_func_def task_value_def io_loop_value time_sub_exact add.assoc)

lemma mixed_values:
  assumes "\<forall>n v. rand_Int (src k 0) n = Inr v \<longrightarrow> 0 \<le> v \<and> v < n"
  shows "\<exists>v. sleep_func src tid c i k = task_value tid v i (nat (v * millisecond)) \<and> 10 \<le> v \<and> v < 510"
    and "\<exists>v. cpu_func src cpu tid c i k = task_value tid (225000 * v) i (cpu k) \<and> 1 \<le> v \<and> v \<le> 10"
proof -
  let ?r = "random_or_zero (src k 0) 500" and ?q = "random_or_zero (src k 0) 10"
  have r: "0 \<le> ?r \<and> ?r < 500" "0 \<le> ?q \<and> ?q < 10" using random_or_zero_range assms by simp_all
  then have "wrap64 (?r + 10) = ?r + 10" "wrap64 ((?r + 10) * millisecond) = (?r + 10) * millisecond"
    by (simp_all add: wrap64_id)
  then show "\<exists>v. sleep_func src tid c i k = task_value tid v i (nat (v * millisecond)) \<and> 10 \<le> v \<and> v < 510"
    using r by (intro exI [of _ "?r + 10"]) (simp add: sleep_func_def signed_divide_int_def sgn_if Let_def)
  have "wrap64 (?q + 1) = ?q + 1" "wrap64 ((?q + 1) * 50000) = (?q + 1) * 50000" using r by (simp_all add: wrap64_id)
  moreover have "nat ((?q + 1) * 50000) = 10 * nat ((?q + 1) * 5000)" using r by (simp add: nat_mult_distrib)
  then have "sum_loop (\<lambda>j. j mod 10) (nat ((?q + 1) * 50000)) 0 0 = 225000 * (?q + 1)"
    using sum_loop_sum [of 0 "\<lambda>j. j mod 10" "nat ((?q + 1) * 50000)" 0] sum_digits [of "nat ((?q + 1) * 5000)"] r
    by (simp add: in64_def wrap64_id)
  ultimately show "\<exists>v. cpu_func src cpu tid c i k = task_value tid (225000 * v) i (cpu k) \<and> 1 \<le> v \<and> v \<le> 10"
    using r by (intro exI [of _ "?q + 1"]) (simp add: cpu_func_def Let_def)
qed

text \<open>C21: What a worker makes of a math task under a live context: one attempt, and one result without an
  error whose value is the closed form of the loop, \<open>450000 * n\<close>.\<close>

theorem math_task_result:
  fixes s :: "(task_result, 'cb) exec_state"
  assumes "0 \<le> n" and "450000 * n \<le> max_int64" and "tid \<noteq> []"
    and "ctx_err c (now (x_world s)) = None" and "in64 (int (cpu (calls (x_world s))))"
    and "x_results s = Some ch" and "length (chan_buf ch) < chan_cap ch"
  shows "\<exists>s' r. ExecuteTask c (ft_iface (NewFunctionTask tid (Some (math_func cpu n tid)) i)) s = (None, s') \<and>
    x_results s' = Some (ch\<lparr>chan_buf := chan_buf ch @ [r]\<rparr>) \<and> r_TaskID r = tid \<and> r_Err r = None \<and> r_Attempt r = 1 \<and>
    r_Output r = Some \<lparr>tr_ID = tid, tr_Value = 450000 * n, tr_Duration = int (cpu (calls (x_world s))), tr_Error = None\<rparr>"
proof -
  let ?t = "ft_iface (NewFunctionTask tid (Some (math_func cpu n tid)) i) :: (task_result, 'cb) task" and ?k = "calls (x_world s)"
  let ?o = "\<lparr>tr_ID = tid, tr_Value = 450000 * n, tr_Duration = int (cpu ?k), tr_Error = None\<rparr>"
  have "t_validate ?t j = None" for j using assms(3) by (simp add: ft_iface_def simple_Validate_def NewFunctionTask_def)
  moreover obtain w' where "t_execute ?t c (x_world s) = (Return (Some ?o) None, w')"
    using math_loop_value [OF assms(1,2)] time_sub_exact assms(5)
    by (simp add: ft_iface_def ft_Execute_def simple_Execute_def call_func_def NewFunctionTask_def math_func_def task_value_def)
  moreover have "t_max_retries ?t = 3" "t_id ?t = tid" by (simp_all add: ft_iface_def NewFunctionTask_def)
  ultimately show ?thesis
    using assms(4,6,7)
    by (intro exI [of _ "snd (ExecuteTask c ?t s)"] exI [of _ "(initial_result ?t (x_worker (mark_idle s)))
        \<lparr>r_Attempt := 1, r_Output := Some ?o, r_Duration := time_sub (now w') (now (x_world s))\<rparr>"])
      (simp add: ExecuteTask_def executeWithRetries_def retry_loop.simps effective_retries_def try_send_def wrap64_id Let_def)
qed

theorem math_task_result_witness:
  "\<exists>s' r. ExecuteTask background (ft_iface (NewFunctionTask ''math-0'' (Some (math_func (\<lambda>_. 7) 1 ''math-0'')) 0))
      \<lparr>x_worker = NewBaseWorker 1 3 0, x_results = Some \<lparr>chan_buf = [], chan_cap = 1\<rparr>, x_world = sample_world\<rparr> = (None, s') \<and>
    x_results s' = Some \<lparr>chan_buf = [r :: (task_result, unit) result], chan_cap = 1\<rparr> \<and>
    r_Output r = Some \<lparr>tr_ID = ''math-0'', tr_Value = 450000, tr_Duration = 7, tr_Error = None\<rparr>"
  using math_task_result [of 1 "''math-0''" background
      "\<lparr>x_worker = NewBaseWorker 1 3 0, x_results = Some \<lparr>chan_buf = [], chan_cap = 1\<rparr>, x_world = sample_world\<rparr>"
      "\<lambda>_. 7" "\<lparr>chan_buf = [] :: (task_result, unit) result list, chan_cap = 1\<rparr>" 0]
  by (auto simp: in64_def)

text \<open>A manager whose monitor checks the resources before every step is one of the oracles.\<close>

lemma monitor_meanwhile_ok: "meanwhile_ok (\<lambda>n m. if m_monitoring m then monitor_tick (int n) m else m)"
  by (auto simp: meanwhile_ok_def own_step_def intro!: r_into_rtranclp monitorResources.tick)

theorem simple_example_output_witness:
  "fst (simple_main sample_world (\<lambda>_. 0 :: nat) (\<lambda>k j. zero_source)
      (\<lambda>n (m :: (string, unit, (string, unit) simple_worker) manager).
        if m_monitoring m then monitor_tick (int n) m else m) (\<lambda>_. True) 0) =
    replicate 19 ''Stats: Submitted=100, Completed=0, Failed=0, Workers=5, Queue=100'' @ [''Monitoring stopped'']"
  by (simp add: simple_example_output [OF monitor_meanwhile_ok])


end
